theory Spec2Isabelle
  imports Main
begin

section \<open>Graph records\<close>

text \<open>
  The three scripts of the repository (\<^verbatim>\<open>index.js\<close> and its two variants, the
  registry variant with \<^verbatim>\<open>methodRegistry\<close> and the argument-tracking variant with
  \<^verbatim>\<open>ensureNodeExists\<close>) accumulate object literals \<^verbatim>\<open>{ id, label, type, lines }\<close> and
  \<^verbatim>\<open>{ source, target, type }\<close> in two global arrays.  A property that is \<^verbatim>\<open>null\<close> or
  \<^verbatim>\<open>undefined\<close> is \<open>None\<close>: the scripts only test such values for truthiness or
  print them through \<^verbatim>\<open>||\<close> and \<^verbatim>\<open>join\<close>, where the two behave alike.
\<close>

record node =
  id_node :: string
  label :: "string option"
  type_node :: string
  lines :: "string option"

record edge =
  source :: string
  target :: string
  type_edge :: string

text \<open>JavaScript truthiness of a value that is a string, \<^verbatim>\<open>null\<close> or \<^verbatim>\<open>undefined\<close>.\<close>

definition truthy :: "string option \<Rightarrow> bool" where
  "truthy v = (case v of None \<Rightarrow> False | Some s \<Rightarrow> s \<noteq> [])"

text \<open>The template literal \<^verbatim>\<open>`${x}`\<close> of such a value.\<close>

definition tpl :: "string option \<Rightarrow> string" where
  "tpl v = (case v of None \<Rightarrow> ''undefined'' | Some s \<Rightarrow> s)"

text \<open>The key functions passed to, or written inside, \<^verbatim>\<open>deduplicate\<close>.\<close>

definition node_key :: "node \<Rightarrow> string" where
  "node_key n = id_node n @ ''-'' @ type_node n"

definition edge_key :: "edge \<Rightarrow> string" where
  "edge_key e = source e @ ''-'' @ target e @ ''-'' @ type_edge e"

text \<open>\<^verbatim>\<open>existing.lines += `, ${item.lines}`\<close>, executed when both sides are truthy.\<close>

definition append_lines :: "string option \<Rightarrow> string option \<Rightarrow> string option" where
  "append_lines existing item = Some (tpl existing @ '', '' @ tpl item)"

definition set_lines :: "string option \<Rightarrow> node \<Rightarrow> node" where
  "set_lines v n = n\<lparr>lines := v\<rparr>"

text \<open>An edge object has no \<^verbatim>\<open>lines\<close> property: reading it gives \<^verbatim>\<open>undefined\<close>.\<close>

definition edge_lines :: "edge \<Rightarrow> string option" where
  "edge_lines e = None"

definition set_edge_lines :: "string option \<Rightarrow> edge \<Rightarrow> edge" where
  "set_edge_lines v e = e"

section \<open>Strings and paths\<close>

text \<open>
  The few built-ins of the runtime that the scripts apply to strings: decimal rendering
  of a line number inside a template literal, \<^verbatim>\<open>String.prototype.includes\<close>,
  \<^verbatim>\<open>String.prototype.split\<close> with a string separator, the \<^verbatim>\<open>||\<close> operator on values
  that are strings or \<^verbatim>\<open>undefined\<close>, and \<^verbatim>\<open>Array.prototype.join\<close>.
\<close>

fun show_nat :: "nat \<Rightarrow> string" where
  "show_nat n =
     (if n < 10 then [''0123456789'' ! n]
      else show_nat (n div 10) @ [''0123456789'' ! (n mod 10)])"

fun starts_with :: "string \<Rightarrow> string \<Rightarrow> bool" where
  "starts_with s [] = True"
| "starts_with [] (c # cs) = False"
| "starts_with (x # xs) (c # cs) = (x = c \<and> starts_with xs cs)"

fun str_includes :: "string \<Rightarrow> string \<Rightarrow> bool" where
  "str_includes [] sub = (sub = [])"
| "str_includes (x # xs) sub = (starts_with (x # xs) sub \<or> str_includes xs sub)"

text \<open>
  \<open>split_aux sep skip cur s\<close> scans \<open>s\<close>; \<open>cur\<close> is the current piece, reversed;
  after a match of the (non-empty) separator the next \<open>skip\<close> characters belong to it.
\<close>

fun split_aux :: "string \<Rightarrow> nat \<Rightarrow> string \<Rightarrow> string \<Rightarrow> string list" where
  "split_aux sep skip cur [] = [rev cur]"
| "split_aux sep (Suc k) cur (c # cs) = split_aux sep k cur cs"
| "split_aux sep 0 cur (c # cs) =
     (if starts_with (c # cs) sep then rev cur # split_aux sep (length sep - 1) [] cs
      else split_aux sep 0 (c # cur) cs)"

definition split_str :: "string \<Rightarrow> string \<Rightarrow> string list" where
  "split_str s sep = (if sep = [] then map (\<lambda>c. [c]) s else split_aux sep 0 [] s)"

text \<open>\<^verbatim>\<open>xs[i]\<close>: \<^verbatim>\<open>undefined\<close> beyond the end of the array.\<close>

definition at_index :: "'a list \<Rightarrow> nat \<Rightarrow> 'a option" where
  "at_index xs i = (if i < length xs then Some (xs ! i) else None)"

text \<open>\<^verbatim>\<open>a || b\<close>.\<close>

definition or_else :: "string option \<Rightarrow> string option \<Rightarrow> string option" where
  "or_else a b = (if truthy a then a else b)"

text \<open>\<^verbatim>\<open>xs.join(sep)\<close> for an array of strings.\<close>

fun join :: "string list \<Rightarrow> string \<Rightarrow> string" where
  "join [] sep = []"
| "join [x] sep = x"
| "join (x # y # ys) sep = x @ sep @ join (y # ys) sep"

text \<open>
  \<^verbatim>\<open>path.join(dir, file)\<close>, \<^verbatim>\<open>path.basename\<close> and \<^verbatim>\<open>path.extname(...).toLowerCase()\<close>
  on POSIX paths that are already normalised, which is what the scan builds: a directory
  path joined with an entry name that holds no separator.
\<close>

definition path_join :: "string \<Rightarrow> string \<Rightarrow> string" where
  "path_join dir file = dir @ ''/'' @ file"

definition basename :: "string \<Rightarrow> string" where
  "basename p = rev (takeWhile (\<lambda>c. c \<noteq> CHR ''/'') (rev p))"

definition extname :: "string \<Rightarrow> string" where
  "extname p =
     (let b = basename p; stem = dropWhile (\<lambda>c. c \<noteq> CHR ''.'') (rev b)
      in if length stem \<le> 1 then [] else drop (length stem - 1) b)"

definition toLowerCase :: "string \<Rightarrow> string" where
  "toLowerCase s =
     map (\<lambda>c. case map_of (zip ''ABCDEFGHIJKLMNOPQRSTUVWXYZ'' ''abcdefghijklmnopqrstuvwxyz'') c of
                 None \<Rightarrow> c | Some l \<Rightarrow> l) s"

section \<open>Syntax trees\<close>

text \<open>
  The parser and the tree walker are libraries.  \<^verbatim>\<open>walk.simple(ast, visitors)\<close> calls the
  visitor registered for a node's type once for every node of the tree, so a tree is
  given by the sequence of its nodes in the walker's order, each with the properties the
  visitors read.  A name that the visitors read through a property chain such as
  \<^verbatim>\<open>node.key.name\<close> is \<open>None\<close> where the chain ends in \<^verbatim>\<open>undefined\<close>; the \<^verbatim>\<open>id\<close> of a
  function or class declaration is \<open>None\<close> where it is \<^verbatim>\<open>null\<close> (an anonymous default
  export), and reading its name throws.
\<close>

record loc =
  start_line :: nat
  end_line :: nat

record specifier =
  type_specifier :: string
  imported_name :: "string option"

record obj_prop =
  type_prop :: string
  key_name_prop :: "string option"
  value_type_prop :: string
  loc_prop :: loc

record callee =
  type_callee :: string
  name_callee :: string

text \<open>
  The result of \<^verbatim>\<open>JSON.stringify(arg.value)\<close> for a literal argument: a text, or a
  \<^verbatim>\<open>TypeError\<close> (a BigInt literal).
\<close>

datatype json = Json string | Json_throws string

datatype arg =
    Identifier string
  | Literal json
  | MemberExpression "string option" "string option"
  | Other_arg string

text \<open>
  The chain \<^verbatim>\<open>node.parent\<close>, \<^verbatim>\<open>node.parent.parent\<close>, ... of a call expression, nearest
  first, as the tree supplies it: for a function declaration its \<^verbatim>\<open>id\<close> (the name, or
  \<^verbatim>\<open>null\<close>), for a method definition the name of its key.
\<close>

datatype ancestor =
    FunctionDeclaration_parent "string option"
  | MethodDefinition_parent "string option"
  | Other_parent string

datatype ast_node =
    FunctionDeclaration "string option" loc
  | ImportDeclaration string "specifier list"
  | CallExpression callee "arg list" loc "ancestor list"
  | ArrowFunctionExpression loc
  | ClassDeclaration "string option" loc
  | MethodDefinition "string option" loc
  | VariableDeclarator "string option" "string option" loc
  | ExportDefaultDeclaration string "obj_prop list"
  | Property "string option" string loc
  | Other_node string

text \<open>\<^verbatim>\<open>`[${node.loc.start.line}-${node.loc.end.line}]`\<close>\<close>

definition range_text :: "loc \<Rightarrow> string" where
  "range_text l = ''['' @ show_nat (start_line l) @ ''-'' @ show_nat (end_line l) @ '']''"

text \<open>
  \<^verbatim>\<open>x.type === "FunctionExpression" || x.type === "ArrowFunctionExpression"\<close>
\<close>

definition is_function_literal :: "string \<Rightarrow> bool" where
  "is_function_literal t = (t = ''FunctionExpression'' \<or> t = ''ArrowFunctionExpression'')"

section \<open>The accumulators and the console\<close>

datatype out = Log string | Warn string | Error string

record state =
  nodes :: "node list"
  edges :: "edge list"
  console :: "out list"

definition console_log :: "string \<Rightarrow> 'a state_scheme \<Rightarrow> 'a state_scheme" where
  "console_log s st = st\<lparr>console := console st @ [Log s]\<rparr>"

definition console_warn :: "string \<Rightarrow> 'a state_scheme \<Rightarrow> 'a state_scheme" where
  "console_warn s st = st\<lparr>console := console st @ [Warn s]\<rparr>"

definition console_error :: "string \<Rightarrow> 'a state_scheme \<Rightarrow> 'a state_scheme" where
  "console_error s st = st\<lparr>console := console st @ [Error s]\<rparr>"

text \<open>
  A call either returns or throws; the accumulators are global, so what it pushed before
  throwing stays.  The first component is the message of the exception, if any.
\<close>

type_synonym 'a completion = "string option \<times> 'a"

text \<open>
  The message of the \<^verbatim>\<open>TypeError\<close> for \<^verbatim>\<open>node.id.name\<close> when \<^verbatim>\<open>node.id\<close> is \<^verbatim>\<open>null\<close>
  (the engine's wording, without its quotation marks).
\<close>

definition null_name_error :: string where
  "null_name_error = ''Cannot read properties of null (reading name)''"

text \<open>\<^verbatim>\<open>walk.simple\<close>: the visitor on every node in turn, until one throws.\<close>

fun walk_simple ::
  "(ast_node \<Rightarrow> 's \<Rightarrow> 's completion) \<Rightarrow> ast_node list \<Rightarrow> 's \<Rightarrow> 's completion" where
  "walk_simple visit [] st = (None, st)"
| "walk_simple visit (n # ns) st =
     (case visit n st of
        (None, st') \<Rightarrow> walk_simple visit ns st'
      | (Some err, st') \<Rightarrow> (Some err, st'))"

text \<open>The libraries and the file system the scripts call.\<close>

record env =
  acorn_parse :: "string \<Rightarrow> string + ast_node list"
  parseComponent_script :: "string \<Rightarrow> string option"

datatype entry =
    File string "string + string"
  | Dir string "entry list"
  | Special string
  | Broken string string

section \<open>The extractor of \<^verbatim>\<open>index.js\<close>\<close>

definition addNode ::
  "string \<Rightarrow> string option \<Rightarrow> string \<Rightarrow> string option \<Rightarrow> 'a state_scheme \<Rightarrow> 'a state_scheme" where
  "addNode i l t ls st =
     st\<lparr>nodes := nodes st @ [\<lparr>id_node = i, label = l, type_node = t, lines = ls\<rparr>]\<rparr>"

definition addEdge :: "string \<Rightarrow> string \<Rightarrow> string \<Rightarrow> 'a state_scheme \<Rightarrow> 'a state_scheme" where
  "addEdge s t ty st =
     st\<lparr>edges := edges st @ [\<lparr>source = s, target = t, type_edge = ty\<rparr>]\<rparr>"

text \<open>The callback of \<^verbatim>\<open>node.specifiers.forEach\<close> in the \<^verbatim>\<open>ImportDeclaration\<close> visitor.\<close>

definition import_specifier ::
  "string \<Rightarrow> string \<Rightarrow> specifier \<Rightarrow> state \<Rightarrow> state" where
  "import_specifier fileName libraryName sp st =
     (if type_specifier sp = ''ImportSpecifier''
      then (let methodName = libraryName @ ''/'' @ tpl (imported_name sp)
            in addEdge fileName methodName ''imports''
                 (addNode methodName (imported_name sp) ''imported-method'' None st))
      else st)"

text \<open>The callback of \<^verbatim>\<open>node.declaration.properties.forEach\<close>.\<close>

definition export_property :: "string \<Rightarrow> obj_prop \<Rightarrow> 'a state_scheme \<Rightarrow> 'a state_scheme" where
  "export_property fileName p st =
     (if type_prop p = ''Property'' \<and> is_function_literal (value_type_prop p)
      then addNode (fileName @ '':'' @ tpl (key_name_prop p)) (key_name_prop p) ''vue-method''
             (Some (range_text (loc_prop p))) st
      else st)"

text \<open>The visitors passed to \<^verbatim>\<open>walk.simple\<close>, by the type of the node.\<close>

fun visit :: "string \<Rightarrow> ast_node \<Rightarrow> state \<Rightarrow> state completion" where
  "visit fileName (FunctionDeclaration i l) st =
     (case i of
        None \<Rightarrow> (Some null_name_error, st)
      | Some name \<Rightarrow>
          (None, addNode (fileName @ '':'' @ name) (Some name) ''method'' (Some (range_text l)) st))"
| "visit fileName (ImportDeclaration libraryName specifiers) st =
     (None, fold (import_specifier fileName libraryName) specifiers
              (addNode libraryName (Some libraryName) ''library'' None st))"
| "visit fileName (CallExpression c args l parents) st =
     (if type_callee c = ''Identifier''
      then (let callerName = fileName @ '':anonymous['' @ show_nat (start_line l) @ ''-'' @
                               show_nat (end_line l) @ '']'';
                calleeName = name_callee c
            in (None, addEdge callerName calleeName ''calls'' st))
      else (None, st))"
| "visit fileName (ArrowFunctionExpression l) st =
     (None, addNode (fileName @ '':arrow'') (Some ''arrow function'') ''method''
              (Some (range_text l)) st)"
| "visit fileName (ClassDeclaration i l) st =
     (case i of
        None \<Rightarrow> (Some null_name_error, st)
      | Some name \<Rightarrow>
          (None, addNode (fileName @ '':'' @ name) (Some name) ''class'' (Some (range_text l)) st))"
| "visit fileName (MethodDefinition k l) st =
     (None, addNode (fileName @ '':'' @ tpl k) k ''method'' (Some (range_text l)) st)"
| "visit fileName (VariableDeclarator i init l) st =
     (case init of
        None \<Rightarrow> (None, st)
      | Some t \<Rightarrow>
          (if is_function_literal t
           then (None, addNode (fileName @ '':'' @ tpl i) i ''method'' (Some (range_text l)) st)
           else (None, st)))"
| "visit fileName (ExportDefaultDeclaration t properties) st =
     (if t = ''ObjectExpression''
      then (None, fold (export_property fileName) properties st)
      else (None, st))"
| "visit fileName (Property k t l) st =
     (if is_function_literal t
      then (None, addNode (fileName @ '':'' @ tpl k) k ''vue-method'' (Some (range_text l)) st)
      else (None, st))"
| "visit fileName (Other_node t) st = (None, st)"

text \<open>
  \<^verbatim>\<open>parseJavaScript\<close>, \<^verbatim>\<open>parseFile\<close> and \<^verbatim>\<open>scanDirectory\<close> are the same text in the three
  scripts but for the visitors (and the log lines, which two of them print and one has
  commented out: \<open>verbose\<close>).  \<open>readFileSync\<close> is the outcome of reading the file: its
  content, or the message of the error thrown.  In the \<^verbatim>\<open><script setup>\<close> branch the
  pieces \<^verbatim>\<open>[1]\<close> and \<^verbatim>\<open>[0]\<close> exist, since the content includes the separator and a split
  is never empty.
\<close>

definition parseJavaScript ::
  "env \<Rightarrow> (string \<Rightarrow> ast_node \<Rightarrow> 'a state_scheme \<Rightarrow> 'a state_scheme completion) \<Rightarrow>
   string \<Rightarrow> string \<Rightarrow> 'a state_scheme \<Rightarrow> 'a state_scheme completion" where
  "parseJavaScript E visitors filePath content st =
     (case acorn_parse E content of
        Inl message \<Rightarrow>
          (None, console_warn (''Warning: Could not parse '' @ filePath @ ''. Error: '' @ message) st)
      | Inr ast \<Rightarrow> walk_simple (visitors (basename filePath)) ast st)"

definition log_if :: "bool \<Rightarrow> string \<Rightarrow> 'a state_scheme \<Rightarrow> 'a state_scheme" where
  "log_if verbose s st = (if verbose then console_log s st else st)"

definition parseFile ::
  "env \<Rightarrow> bool \<Rightarrow> (string \<Rightarrow> ast_node \<Rightarrow> 'a state_scheme \<Rightarrow> 'a state_scheme completion) \<Rightarrow>
   string \<Rightarrow> string + string \<Rightarrow> 'a state_scheme \<Rightarrow> 'a state_scheme completion" where
  "parseFile E verbose visitors filePath readFileSync st =
     (let ext = toLowerCase (extname filePath) in
      case readFileSync of
        Inl message \<Rightarrow> (Some message, st)
      | Inr content \<Rightarrow>
          (let st1 = log_if verbose (''Parsing file: '' @ filePath @ '', extension: '' @ ext) st in
           if ext = ''.vue'' then
             (case parseComponent_script E content of
                Some script \<Rightarrow>
                  parseJavaScript E visitors filePath script
                    (log_if verbose ''Vue file detected, parsing script content'' st1)
              | None \<Rightarrow>
                  if str_includes content ''<script setup>'' then
                    (let scriptContent =
                           hd (split_str (split_str content ''<script setup>'' ! 1) ''</script>'')
                     in parseJavaScript E visitors filePath scriptContent
                          (log_if verbose
                             ''Vue file detected with <script setup>, parsing content'' st1))
                  else (None, log_if verbose ''Vue file has no script content'' st1))
           else parseJavaScript E visitors filePath content st1))"

definition ignoreDirs :: "string list" where
  "ignoreDirs = [''node_modules'', ''.git'', ''build'', ''dist'']"

definition allowedExtensions :: "string list" where
  "allowedExtensions = [''.js'', ''.jsx'', ''.ts'', ''.tsx'', ''.vue'']"

text \<open>
  The inner \<^verbatim>\<open>scan(dir)\<close>: the loop over \<^verbatim>\<open>fs.readdirSync(dir)\<close>.  A directory entry
  carries its own listing; a \<open>Broken\<close> entry is one on which \<^verbatim>\<open>fs.statSync\<close> throws,
  which nothing in the scan catches.
\<close>

fun scan ::
  "env \<Rightarrow> bool \<Rightarrow> (string \<Rightarrow> ast_node \<Rightarrow> 'a state_scheme \<Rightarrow> 'a state_scheme completion) \<Rightarrow>
   string \<Rightarrow> entry list \<Rightarrow> 'a state_scheme \<Rightarrow> 'a state_scheme completion"
and scan_entry ::
  "env \<Rightarrow> bool \<Rightarrow> (string \<Rightarrow> ast_node \<Rightarrow> 'a state_scheme \<Rightarrow> 'a state_scheme completion) \<Rightarrow>
   string \<Rightarrow> entry \<Rightarrow> 'a state_scheme \<Rightarrow> 'a state_scheme completion" where
  "scan E verbose visitors dir [] st = (None, st)"
| "scan E verbose visitors dir (f # files) st =
     (case scan_entry E verbose visitors dir f st of
        (None, st') \<Rightarrow> scan E verbose visitors dir files st'
      | (Some err, st') \<Rightarrow> (Some err, st'))"
| "scan_entry E verbose visitors dir (Broken file message) st = (Some message, st)"
| "scan_entry E verbose visitors dir (Special file) st = (None, st)"
| "scan_entry E verbose visitors dir (Dir file listing) st =
     (if file \<notin> set ignoreDirs then scan E verbose visitors (path_join dir file) listing st
      else (None, st))"
| "scan_entry E verbose visitors dir (File file readFileSync) st =
     (let filePath = path_join dir file; ext = toLowerCase (extname file) in
      if ext \<in> set allowedExtensions then
        (let st1 = log_if verbose (''Processing file: '' @ filePath) st in
         case parseFile E verbose visitors filePath readFileSync st1 of
           (None, st') \<Rightarrow> (None, st')
         | (Some message, st') \<Rightarrow>
             (None, console_warn (''Warning: Error parsing '' @ filePath @ ''. '' @ message) st'))
      else (None, st))"

definition scanDirectory ::
  "env \<Rightarrow> bool \<Rightarrow> (string \<Rightarrow> ast_node \<Rightarrow> 'a state_scheme \<Rightarrow> 'a state_scheme completion) \<Rightarrow>
   string \<Rightarrow> entry list \<Rightarrow> 'a state_scheme \<Rightarrow> 'a state_scheme completion" where
  "scanDirectory E verbose visitors directory listing st = scan E verbose visitors directory listing st"

section \<open>The extractor of the registry variant\<close>

text \<open>
  This script keeps, besides the two arrays, a \<^verbatim>\<open>Map\<close> from ids to the first
  \<^verbatim>\<open>{ file, name, type, lines }\<close> registered under that id, in insertion order.  It has
  no visitor for import declarations.
\<close>

record reg_info =
  file_reg :: string
  name_reg :: "string option"
  type_reg :: string
  lines_reg :: "string option"

record reg_state = state +
  methodRegistry :: "(string \<times> reg_info) list"
  written :: "(string \<times> string) list"

definition addNode_reg ::
  "string \<Rightarrow> string option \<Rightarrow> string \<Rightarrow> string option \<Rightarrow> reg_state \<Rightarrow> reg_state" where
  "addNode_reg file name t ls st =
     (let i = file @ '':'' @ tpl name;
          st1 = (if map_of (methodRegistry st) i = None
                 then st\<lparr>methodRegistry := methodRegistry st @
                        [(i, \<lparr>file_reg = file, name_reg = name, type_reg = t, lines_reg = ls\<rparr>)]\<rparr>
                 else st)
      in st1\<lparr>nodes := nodes st1 @ [\<lparr>id_node = i, label = name, type_node = t, lines = ls\<rparr>]\<rparr>)"

definition addEdge_reg ::
  "string \<Rightarrow> string \<Rightarrow> string \<Rightarrow> string \<Rightarrow> string \<Rightarrow> reg_state \<Rightarrow> reg_state" where
  "addEdge_reg sourceFile sourceMethod targetFile targetMethod ty st =
     (let sourceId = sourceFile @ '':'' @ sourceMethod;
          targetId = targetFile @ '':'' @ targetMethod
      in if map_of (methodRegistry st) targetId \<noteq> None
         then st\<lparr>edges := edges st @ [\<lparr>source = sourceId, target = targetId, type_edge = ty\<rparr>]\<rparr>
         else st)"

text \<open>
  \<^verbatim>\<open>getEnclosingFunctionName(node)\<close>: the loop \<^verbatim>\<open>while ((parent = parent.parent))\<close> over
  the chain of parents.
\<close>

fun getEnclosingFunctionName :: "ancestor list \<Rightarrow> string" where
  "getEnclosingFunctionName [] = ''global''"
| "getEnclosingFunctionName (parent # parents) =
     (case parent of
        FunctionDeclaration_parent (Some name) \<Rightarrow> name
      | _ \<Rightarrow> getEnclosingFunctionName parents)"

text \<open>The callback of \<^verbatim>\<open>methodRegistry.forEach\<close> in the \<^verbatim>\<open>CallExpression\<close> visitor.\<close>

definition track_call ::
  "string \<Rightarrow> string \<Rightarrow> string \<Rightarrow> string \<times> reg_info \<Rightarrow> reg_state \<Rightarrow> reg_state" where
  "track_call fileName parentFunction calleeName entry st =
     (if name_reg (snd entry) = Some calleeName
      then addEdge_reg fileName parentFunction (file_reg (snd entry)) calleeName ''calls'' st
      else st)"

definition export_property_reg :: "string \<Rightarrow> obj_prop \<Rightarrow> reg_state \<Rightarrow> reg_state" where
  "export_property_reg fileName p st =
     (if type_prop p = ''Property'' \<and> is_function_literal (value_type_prop p)
      then addNode_reg fileName (key_name_prop p) ''vue-method'' (Some (range_text (loc_prop p))) st
      else st)"

fun visit_reg :: "string \<Rightarrow> ast_node \<Rightarrow> reg_state \<Rightarrow> reg_state completion" where
  "visit_reg fileName (FunctionDeclaration i l) st =
     (case i of
        None \<Rightarrow> (Some null_name_error, st)
      | Some name \<Rightarrow> (None, addNode_reg fileName (Some name) ''function'' (Some (range_text l)) st))"
| "visit_reg fileName (CallExpression c args l parents) st =
     (if type_callee c = ''Identifier''
      then (let calleeName = name_callee c;
                parentFunction = getEnclosingFunctionName parents
            in (None, fold (track_call fileName parentFunction calleeName) (methodRegistry st) st))
      else (None, st))"
| "visit_reg fileName (ArrowFunctionExpression l) st =
     (None, addNode_reg fileName (Some ''arrow function'') ''method'' (Some (range_text l)) st)"
| "visit_reg fileName (ClassDeclaration i l) st =
     (case i of
        None \<Rightarrow> (Some null_name_error, st)
      | Some name \<Rightarrow> (None, addNode_reg fileName (Some name) ''class'' (Some (range_text l)) st))"
| "visit_reg fileName (MethodDefinition k l) st =
     (None, addNode_reg fileName k ''method'' (Some (range_text l)) st)"
| "visit_reg fileName (VariableDeclarator i init l) st =
     (case init of
        None \<Rightarrow> (None, st)
      | Some t \<Rightarrow>
          (if is_function_literal t
           then (None, addNode_reg fileName i ''method'' (Some (range_text l)) st)
           else (None, st)))"
| "visit_reg fileName (ExportDefaultDeclaration t properties) st =
     (if t = ''ObjectExpression''
      then (None, fold (export_property_reg fileName) properties st)
      else (None, st))"
| "visit_reg fileName (Property k t l) st =
     (if is_function_literal t
      then (None, addNode_reg fileName k ''vue-method'' (Some (range_text l)) st)
      else (None, st))"
| "visit_reg fileName (ImportDeclaration libraryName specifiers) st = (None, st)"
| "visit_reg fileName (Other_node t) st = (None, st)"

section \<open>The extractor of the argument-tracking variant\<close>

definition addNode_arg ::
  "string \<Rightarrow> string option \<Rightarrow> string \<Rightarrow> string option \<Rightarrow> state \<Rightarrow> state" where
  "addNode_arg i l t ls st =
     (let t' = (if t = ''unknown''
                then (if CHR '':'' \<in> set i then ''function''
                      else if CHR ''/'' \<in> set i then ''imported-method''
                      else ''variable'')
                else t)
      in st\<lparr>nodes := nodes st @ [\<lparr>id_node = i, label = l, type_node = t', lines = ls\<rparr>]\<rparr>)"

definition ensureNodeExists :: "string \<Rightarrow> string option \<Rightarrow> string \<Rightarrow> state \<Rightarrow> state" where
  "ensureNodeExists i l t st =
     (if \<not> list_ex (\<lambda>n. id_node n = i) (nodes st)
      then addNode_arg i (or_else (or_else l (at_index (split_str i '':'') 1)) (Some i))
             (if t = [] then ''unknown'' else t) None st
      else st)"

definition addEdge_arg :: "string \<Rightarrow> string \<Rightarrow> string \<Rightarrow> state \<Rightarrow> state" where
  "addEdge_arg s t ty st =
     (let st1 = ensureNodeExists s (or_else (at_index (split_str s '':'') 1) (Some s)) ''unknown'' st;
          st2 = ensureNodeExists t (or_else (at_index (split_str t '':'') 1) (Some t)) ''unknown'' st1
      in st2\<lparr>edges := edges st2 @ [\<lparr>source = s, target = t, type_edge = ty\<rparr>]\<rparr>)"

text \<open>
  The loop \<^verbatim>\<open>while ((parent = parent.parent))\<close> of the \<^verbatim>\<open>CallExpression\<close> visitor:
  \<open>callerName\<close> is the value set before the loop, kept when the loop ends without a
  \<^verbatim>\<open>break\<close>.  The key of a method definition is an object, hence truthy.
\<close>

fun containing_function :: "string \<Rightarrow> string \<Rightarrow> ancestor list \<Rightarrow> string" where
  "containing_function fileName callerName [] = callerName"
| "containing_function fileName callerName (parent # parents) =
     (case parent of
        FunctionDeclaration_parent (Some name) \<Rightarrow> fileName @ '':'' @ name
      | MethodDefinition_parent k \<Rightarrow> fileName @ '':'' @ tpl k
      | _ \<Rightarrow> containing_function fileName callerName parents)"

text \<open>The callback of \<^verbatim>\<open>node.arguments.map\<close>, and the map, which a throwing callback ends.\<close>

fun render_arg :: "arg \<Rightarrow> string + string" where
  "render_arg (Identifier name) = Inr name"
| "render_arg (Literal (Json text)) = Inr text"
| "render_arg (Literal (Json_throws message)) = Inl message"
| "render_arg (MemberExpression object_name property_name) =
     Inr (tpl object_name @ ''.'' @ tpl property_name)"
| "render_arg (Other_arg t) = Inr t"

fun render_args :: "arg list \<Rightarrow> string + string list" where
  "render_args [] = Inr []"
| "render_args (a # as) =
     (case render_arg a of
        Inl message \<Rightarrow> Inl message
      | Inr text \<Rightarrow> (case render_args as of Inl message \<Rightarrow> Inl message
                     | Inr texts \<Rightarrow> Inr (text # texts)))"

definition import_specifier_arg ::
  "string \<Rightarrow> string \<Rightarrow> specifier \<Rightarrow> state \<Rightarrow> state" where
  "import_specifier_arg fileName libraryName sp st =
     (if type_specifier sp = ''ImportSpecifier''
      then (let methodName = libraryName @ ''/'' @ tpl (imported_name sp)
            in addEdge_arg fileName methodName ''imports''
                 (addNode_arg methodName (imported_name sp) ''imported-method'' None st))
      else st)"

definition export_property_arg :: "string \<Rightarrow> obj_prop \<Rightarrow> state \<Rightarrow> state" where
  "export_property_arg fileName p st =
     (if type_prop p = ''Property'' \<and> is_function_literal (value_type_prop p)
      then addNode_arg (fileName @ '':'' @ tpl (key_name_prop p)) (key_name_prop p) ''vue-method''
             (Some (range_text (loc_prop p))) st
      else st)"

text \<open>
  The object of visitors names \<^verbatim>\<open>VariableDeclarator\<close> twice; the later property replaces
  the earlier one, so the visitor that records every declarator as a \<^verbatim>\<open>variable\<close> never
  runs.
\<close>

fun visit_arg :: "string \<Rightarrow> ast_node \<Rightarrow> state \<Rightarrow> state completion" where
  "visit_arg fileName (FunctionDeclaration i l) st =
     (case i of
        None \<Rightarrow> (Some null_name_error, st)
      | Some name \<Rightarrow>
          (None, addNode_arg (fileName @ '':'' @ name) (Some name) ''method''
                   (Some (range_text l)) st))"
| "visit_arg fileName (ImportDeclaration libraryName specifiers) st =
     (None, fold (import_specifier_arg fileName libraryName) specifiers
              (addNode_arg libraryName (Some libraryName) ''library'' None st))"
| "visit_arg fileName (CallExpression c args l parents) st =
     (if type_callee c = ''Identifier''
      then (let callerName =
                  containing_function fileName
                    (fileName @ '':anonymous['' @ show_nat (start_line l) @ '']'') parents;
                calleeName = name_callee c
            in case render_args args of
                 Inl message \<Rightarrow> (Some message, st)
               | Inr texts \<Rightarrow>
                   (None, addEdge_arg callerName calleeName
                            (''calls('' @ join texts '', '' @ '')'') st))
      else (None, st))"
| "visit_arg fileName (ArrowFunctionExpression l) st =
     (None, addNode_arg (fileName @ '':arrow'') (Some ''arrow function'') ''method''
              (Some (range_text l)) st)"
| "visit_arg fileName (ClassDeclaration i l) st =
     (case i of
        None \<Rightarrow> (Some null_name_error, st)
      | Some name \<Rightarrow>
          (None, addNode_arg (fileName @ '':'' @ name) (Some name) ''class''
                   (Some (range_text l)) st))"
| "visit_arg fileName (MethodDefinition k l) st =
     (None, addNode_arg (fileName @ '':'' @ tpl k) k ''method'' (Some (range_text l)) st)"
| "visit_arg fileName (VariableDeclarator i init l) st =
     (case init of
        None \<Rightarrow> (None, st)
      | Some t \<Rightarrow>
          (if is_function_literal t
           then (None, addNode_arg (fileName @ '':'' @ tpl i) i ''method'' (Some (range_text l)) st)
           else (None, st)))"
| "visit_arg fileName (ExportDefaultDeclaration t properties) st =
     (if t = ''ObjectExpression''
      then (None, fold (export_property_arg fileName) properties st)
      else (None, st))"
| "visit_arg fileName (Property k t l) st =
     (if is_function_literal t
      then (None, addNode_arg (fileName @ '':'' @ tpl k) k ''vue-method'' (Some (range_text l)) st)
      else (None, st))"
| "visit_arg fileName (Other_node t) st = (None, st)"

section \<open>Deduplication in \<^verbatim>\<open>index.js\<close>\<close>

text \<open>
  \<^verbatim>\<open>deduplicate(array, keyFn)\<close> filters the array with a callback that keeps a \<^verbatim>\<open>Map\<close>
  from keys to the first object seen with that key, and appends the \<^verbatim>\<open>lines\<close> of a
  later object to that first object \<^emph>\<open>in place\<close>.  The objects live in the global array,
  so the array is the store and an object's address is its index.  The loop state is the
  part of the array already visited (\<open>vis\<close>, where the mutations land), the map \<open>seen\<close>
  from keys to addresses in insertion order, and the addresses for which the callback
  returned \<^verbatim>\<open>true\<close>.  The function is duck-typed in the source; the model takes the
  accessors of the \<^verbatim>\<open>lines\<close> property as arguments.
\<close>

fun filter_loop ::
  "('a \<Rightarrow> string) \<Rightarrow> ('a \<Rightarrow> string option) \<Rightarrow> (string option \<Rightarrow> 'a \<Rightarrow> 'a) \<Rightarrow>
   'a list \<Rightarrow> (string \<times> nat) list \<Rightarrow> nat list \<Rightarrow> 'a list \<Rightarrow>
   'a list \<times> (string \<times> nat) list \<times> nat list" where
  "filter_loop keyFn getL setL vis seen kept [] = (vis, seen, kept)"
| "filter_loop keyFn getL setL vis seen kept (item # rest) =
     (let key = keyFn item in
      case map_of seen key of
        Some j \<Rightarrow>
          (let existing = vis ! j;
               vis' = (if truthy (getL item) \<and> truthy (getL existing)
                       then vis[j := setL (append_lines (getL existing) (getL item)) existing]
                       else vis)
           in filter_loop keyFn getL setL (vis' @ [item]) seen kept rest)
      | None \<Rightarrow>
          filter_loop keyFn getL setL (vis @ [item]) (seen @ [(key, length vis)])
            (kept @ [length vis]) rest)"

text \<open>
  The result is the array as the call leaves it, and the filtered array: the kept
  objects, read through their addresses.
\<close>

definition deduplicate ::
  "'a list \<Rightarrow> ('a \<Rightarrow> string) \<Rightarrow> ('a \<Rightarrow> string option) \<Rightarrow> (string option \<Rightarrow> 'a \<Rightarrow> 'a) \<Rightarrow>
   'a list \<times> 'a list" where
  "deduplicate array keyFn getL setL =
     (case filter_loop keyFn getL setL [] [] [] array of
        (store, seen, kept) \<Rightarrow> (store, map (\<lambda>a. store ! a) kept))"

section \<open>Deduplication in the two variants\<close>

text \<open>
  \<^verbatim>\<open>deduplicate(nodes, edges)\<close> is the same text in the registry variant and in the
  argument-tracking variant.  \<^verbatim>\<open>uniqueNodes\<close> maps a key to the first node object with
  that key (its address), \<^verbatim>\<open>uniqueEdges\<close> maps a key to the first edge object (edges are
  never mutated, so the map holds the value), \<^verbatim>\<open>referencedNodes\<close> is a set of ids.
\<close>

fun nodes_forEach ::
  "node list \<Rightarrow> (string \<times> nat) list \<Rightarrow> node list \<Rightarrow> node list \<times> (string \<times> nat) list" where
  "nodes_forEach vis uniqueNodes [] = (vis, uniqueNodes)"
| "nodes_forEach vis uniqueNodes (n # rest) =
     (let key = id_node n @ ''-'' @ type_node n in
      case map_of uniqueNodes key of
        None \<Rightarrow> nodes_forEach (vis @ [n]) (uniqueNodes @ [(key, length vis)]) rest
      | Some j \<Rightarrow>
          (let existingNode = vis ! j;
               vis' = (if truthy (lines n) \<and> truthy (lines existingNode)
                       then vis[j := existingNode\<lparr>lines := append_lines (lines existingNode) (lines n)\<rparr>]
                       else vis)
           in nodes_forEach (vis' @ [n]) uniqueNodes rest))"

fun edges_forEach ::
  "(string \<times> edge) list \<Rightarrow> string set \<Rightarrow> edge list \<Rightarrow> (string \<times> edge) list \<times> string set" where
  "edges_forEach uniqueEdges referencedNodes [] = (uniqueEdges, referencedNodes)"
| "edges_forEach uniqueEdges referencedNodes (e # rest) =
     (let key = source e @ ''-'' @ target e @ ''-'' @ type_edge e in
      case map_of uniqueEdges key of
        None \<Rightarrow>
          edges_forEach (uniqueEdges @ [(key, e)])
            (insert (target e) (insert (source e) referencedNodes)) rest
      | Some _ \<Rightarrow> edges_forEach uniqueEdges referencedNodes rest)"

record graph =
  nodes_of :: "node list"
  edges_of :: "edge list"

text \<open>The node array as the call leaves it, and the returned object.\<close>

definition deduplicate_graph :: "node list \<Rightarrow> edge list \<Rightarrow> node list \<times> graph" where
  "deduplicate_graph ns es =
     (case nodes_forEach [] [] ns of
        (store, uniqueNodes) \<Rightarrow>
          (case edges_forEach [] {} es of
             (uniqueEdges, referencedNodes) \<Rightarrow>
               (store,
                \<lparr>nodes_of = filter (\<lambda>n. id_node n \<in> referencedNodes)
                              (map (\<lambda>(k, a). store ! a) uniqueNodes),
                 edges_of = map snd uniqueEdges\<rparr>)))"

section \<open>Reports\<close>

text \<open>
  \<^verbatim>\<open>displayResults\<close> of \<^verbatim>\<open>index.js\<close>.  The deduplication leaves its marks in the global
  arrays, so the state it returns holds the arrays as the call leaves them.
\<close>

definition newline :: string where
  "newline = [CHR 0x0A]"

definition node_line :: "node \<Rightarrow> string" where
  "node_line n =
     id_node n @ '' '' @ (if truthy (lines n) then tpl (lines n) else []) @ '' - '' @
     tpl (label n) @ '' ('' @ type_node n @ '')''"

definition edge_line :: "edge \<Rightarrow> string" where
  "edge_line e = source e @ '' -> '' @ target e @ '' ('' @ type_edge e @ '')''"

definition print_report ::
  "(node \<Rightarrow> string) \<Rightarrow> (edge \<Rightarrow> string) \<Rightarrow> node list \<Rightarrow> edge list \<Rightarrow> out list" where
  "print_report nl el ns es =
     [Log ''Nodes:''] @ map (\<lambda>n. Log (nl n)) ns @
     [Log (newline @ ''Edges:'')] @ map (\<lambda>e. Log (el e)) es @
     [Log (newline @ ''Total unique nodes: '' @ show_nat (length ns)),
      Log (''Total unique edges: '' @ show_nat (length es))]"

definition displayResults :: "state \<Rightarrow> state" where
  "displayResults st =
     (case deduplicate (nodes st) node_key lines set_lines of
        (ns, uniqueNodes) \<Rightarrow>
          (case deduplicate (edges st) edge_key edge_lines set_edge_lines of
             (es, uniqueEdges) \<Rightarrow>
               st\<lparr>nodes := ns, edges := es,
                  console := console st @ print_report node_line edge_line uniqueNodes uniqueEdges\<rparr>))"

text \<open>
  \<^verbatim>\<open>displayResults(filterAnonymous = true)\<close> of the two variants.  An edge object has no
  \<^verbatim>\<open>label\<close>, so the filter on edges keeps none and the argument-tracking variant prints an
  empty label.
\<close>

definition node_line_graph :: "node \<Rightarrow> string" where
  "node_line_graph n =
     id_node n @ '' - '' @ (if truthy (label n) then tpl (label n) else []) @
     '' ('' @ type_node n @ '')''"

definition edge_line_arg :: "edge \<Rightarrow> string" where
  "edge_line_arg e = source e @ '' -> '' @ target e @ '' ()''"

definition not_anonymous :: "node \<Rightarrow> bool" where
  "not_anonymous n = (truthy (label n) \<and> \<not> str_includes (tpl (label n)) ''anonymous'')"

definition displayResults_graph ::
  "(edge \<Rightarrow> string) \<Rightarrow> bool \<Rightarrow> 'a state_scheme \<Rightarrow> 'a state_scheme" where
  "displayResults_graph el filterAnonymous st =
     (case deduplicate_graph (nodes st) (edges st) of
        (ns, g) \<Rightarrow>
          (let filteredNodes = (if filterAnonymous then filter not_anonymous (nodes_of g)
                                else nodes_of g);
               filteredEdges = (if filterAnonymous then [] else edges_of g)
           in st\<lparr>nodes := ns,
                 console := console st @ print_report node_line_graph el filteredNodes filteredEdges\<rparr>))"

section \<open>The scripts\<close>

text \<open>
  The body of each script, from the parsed options on: \<open>path\<close> and \<open>output\<close> are
  \<^verbatim>\<open>options.path\<close> and \<^verbatim>\<open>options.output\<close>, \<open>listing\<close> is what the file system holds under
  the path.
\<close>

definition script_start :: "string \<Rightarrow> 'a state_scheme \<Rightarrow> 'a state_scheme" where
  "script_start path st = console_log (''Analyzing directory: '' @ path) st"

definition script_catch :: "string \<Rightarrow> 'a state_scheme \<Rightarrow> 'a state_scheme" where
  "script_catch message st =
     console_log ''Partial results:'' (console_error (''Error during analysis: '' @ message) st)"

definition usage_error :: "'a state_scheme \<Rightarrow> 'a state_scheme" where
  "usage_error st = console_error ''Please provide a directory path using the --path option'' st"

definition main :: "env \<Rightarrow> string option \<Rightarrow> entry list \<Rightarrow> state" where
  "main E path listing =
     (let st0 = \<lparr>nodes = [], edges = [], console = []\<rparr> in
      case path of
        None \<Rightarrow> usage_error st0
      | Some p \<Rightarrow>
          (case scanDirectory E True visit p listing (script_start p st0) of
             (None, st1) \<Rightarrow> displayResults st1
           | (Some message, st1) \<Rightarrow> displayResults (script_catch message st1)))"

definition main_arg :: "env \<Rightarrow> string option \<Rightarrow> entry list \<Rightarrow> state" where
  "main_arg E path listing =
     (let st0 = \<lparr>nodes = [], edges = [], console = []\<rparr> in
      case path of
        None \<Rightarrow> usage_error st0
      | Some p \<Rightarrow>
          (case scanDirectory E True visit_arg p listing (script_start p st0) of
             (None, st1) \<Rightarrow> displayResults_graph edge_line_arg False st1
           | (Some message, st1) \<Rightarrow>
               displayResults_graph edge_line_arg True (script_catch message st1)))"

text \<open>
  The registry variant writes two CSV files when \<^verbatim>\<open>--output\<close> is given, from a second
  call of \<^verbatim>\<open>deduplicate\<close> on the same two arrays.  In a row, \<^verbatim>\<open>join\<close> prints \<^verbatim>\<open>null\<close> and
  \<^verbatim>\<open>undefined\<close> as the empty string.
\<close>

definition csv_field :: "string option \<Rightarrow> string" where
  "csv_field v = (case v of None \<Rightarrow> [] | Some s \<Rightarrow> s)"

definition nodesCsv :: "node list \<Rightarrow> string list" where
  "nodesCsv uniqueNodes =
     join [''id'', ''label'', ''type'', ''lines''] '','' #
     map (\<lambda>n. join [id_node n, csv_field (label n), type_node n, csv_field (lines n)] '','')
       uniqueNodes"

definition edgesCsv :: "edge list \<Rightarrow> string list" where
  "edgesCsv uniqueEdges =
     join [''source'', ''target'', ''type''] '','' #
     map (\<lambda>e. join [source e, target e, type_edge e] '','') uniqueEdges"

definition write_output :: "string \<Rightarrow> reg_state \<Rightarrow> reg_state" where
  "write_output output st =
     (case deduplicate_graph (nodes st) (edges st) of
        (ns, g) \<Rightarrow>
          console_log
            (''Results saved to '' @ output @ ''_nodes.csv and '' @ output @ ''_edges.csv'')
            (st\<lparr>nodes := ns,
                written := written st @
                  [(output @ ''_nodes.csv'', join (nodesCsv (nodes_of g)) newline),
                   (output @ ''_edges.csv'', join (edgesCsv (edges_of g)) newline)]\<rparr>))"

definition main_reg :: "env \<Rightarrow> string option \<Rightarrow> string option \<Rightarrow> entry list \<Rightarrow> reg_state" where
  "main_reg E path output listing =
     (let st0 = \<lparr>nodes = [], edges = [], console = [], methodRegistry = [], written = []\<rparr> in
      case path of
        None \<Rightarrow> usage_error st0
      | Some p \<Rightarrow>
          (case scanDirectory E False visit_reg p listing (script_start p st0) of
             (None, st1) \<Rightarrow>
               (let st2 = displayResults_graph edge_line False st1 in
                case output of
                  None \<Rightarrow> st2
                | Some out \<Rightarrow> if out = [] then st2 else write_output out st2)
           | (Some message, st1) \<Rightarrow>
               displayResults_graph edge_line True (script_catch message st1)))"

section \<open>Notions used in the statements and proofs\<close>

text \<open>
  What one later object does to the object kept for its key: the body of the branch
  \<^verbatim>\<open>if (item.lines && existing.lines)\<close>, as a function of the two objects.
\<close>

definition merge_item :: "('a \<Rightarrow> string option) \<Rightarrow> (string option \<Rightarrow> 'a \<Rightarrow> 'a) \<Rightarrow> 'a \<Rightarrow> 'a \<Rightarrow> 'a" where
  "merge_item getL setL existing item =
     (if truthy (getL item) \<and> truthy (getL existing)
      then setL (append_lines (getL existing) (getL item)) existing else existing)"

text \<open>
  The invariant of the \<^verbatim>\<open>Map\<close>: its keys are distinct, and each key is the key of the
  object at the address it maps to.
\<close>

definition seen_ok :: "('a \<Rightarrow> string) \<Rightarrow> 'a list \<Rightarrow> (string \<times> nat) list \<Rightarrow> bool" where
  "seen_ok keyFn vis seen \<longleftrightarrow>
     distinct (map fst seen) \<and> (\<forall>(k, j) \<in> set seen. j < length vis \<and> keyFn (vis ! j) = k)"


definition edges_ok :: "(string \<times> edge) list \<Rightarrow> string set \<Rightarrow> bool" where
  "edges_ok uniqueEdges referencedNodes \<longleftrightarrow>
     distinct (map fst uniqueEdges) \<and>
     (\<forall>(k, e) \<in> set uniqueEdges. k = edge_key e) \<and>
     referencedNodes = source ` snd ` set uniqueEdges \<union> target ` snd ` set uniqueEdges"



text \<open>
  The accumulated node list holds a record with a given id; every recorded edge has both
  endpoints among the node records; the kind \<^verbatim>\<open>addNode\<close> of the argument-tracking variant
  infers for the type \<^verbatim>\<open>unknown\<close>.
\<close>

definition has_node :: "string \<Rightarrow> 'a state_scheme \<Rightarrow> bool" where
  "has_node i st = list_ex (\<lambda>n. id_node n = i) (nodes st)"

definition endpoints_exist :: "'a state_scheme \<Rightarrow> bool" where
  "endpoints_exist st = (\<forall>e \<in> set (edges st). has_node (source e) st \<and> has_node (target e) st)"

definition inferred_type :: "string \<Rightarrow> string" where
  "inferred_type i =
     (if CHR '':'' \<in> set i then ''function''
      else if CHR ''/'' \<in> set i then ''imported-method'' else ''variable'')"

text \<open>
  Two states hold the same data when they differ at most in the console; a set of
  visitors ignores the console when, on states with the same data, it throws or returns
  alike and leaves states with the same data.  \<open>text_to_parse\<close> is the text that
  \<^verbatim>\<open>parseFile\<close> hands to \<^verbatim>\<open>parseJavaScript\<close> for a file: the content, or for a \<^verbatim>\<open>.vue\<close>
  file its script, if it has one.
\<close>

definition same_data :: "'a state_scheme \<Rightarrow> 'a state_scheme \<Rightarrow> bool" where
  "same_data s1 s2 = (nodes s1 = nodes s2 \<and> edges s1 = edges s2 \<and> state.more s1 = state.more s2)"

definition ignores_console ::
  "(string \<Rightarrow> ast_node \<Rightarrow> 'a state_scheme \<Rightarrow> 'a state_scheme completion) \<Rightarrow> bool" where
  "ignores_console visitors =
     (\<forall>f n s1 s2. same_data s1 s2 \<longrightarrow>
        fst (visitors f n s1) = fst (visitors f n s2) \<and>
        same_data (snd (visitors f n s1)) (snd (visitors f n s2)))"

definition text_to_parse :: "env \<Rightarrow> string \<Rightarrow> string \<Rightarrow> string option" where
  "text_to_parse E filePath content =
     (if toLowerCase (extname filePath) = ''.vue'' then
        (case parseComponent_script E content of
           Some script \<Rightarrow> Some script
         | None \<Rightarrow>
             if str_includes content ''<script setup>''
             then Some (hd (split_str (split_str content ''<script setup>'' ! 1) ''</script>''))
             else None)
      else Some content)"

section \<open>Concrete inputs\<close>

text \<open>
  Inputs on which the statements below are evaluated.  A parser is given by the trees it
  returns for the texts of the example; nodes for which no script has a visitor are left
  out of the trees.
\<close>

definition isolated_env :: env where
  "isolated_env =
     \<lparr>acorn_parse = (\<lambda>content. Inr [FunctionDeclaration (Some ''isolated'') \<lparr>start_line = 1, end_line = 1\<rparr>]),
      parseComponent_script = (\<lambda>content. None)\<rparr>"

definition sample_node :: "string \<Rightarrow> string option \<Rightarrow> node" where
  "sample_node t ls = \<lparr>id_node = ''a.js:f'', label = Some ''f'', type_node = t, lines = ls\<rparr>"

definition sample_edge :: "string \<Rightarrow> edge" where
  "sample_edge ty = \<lparr>source = ''a.js:g'', target = ''a.js:f'', type_edge = ty\<rparr>"

definition init_short :: string where
  "init_short = ''function init() {}''"

definition init_long :: string where
  "init_long = ''function init() {'' @ newline @ ''}'' @ newline @ ''init();''"

definition twice_env :: env where
  "twice_env =
     \<lparr>acorn_parse = (\<lambda>content.
        if content = init_short
        then Inr [FunctionDeclaration (Some ''init'') \<lparr>start_line = 1, end_line = 1\<rparr>]
        else if content = init_long
        then Inr [FunctionDeclaration (Some ''init'') \<lparr>start_line = 1, end_line = 2\<rparr>,
                  CallExpression \<lparr>type_callee = ''Identifier'', name_callee = ''init''\<rparr> []
                    \<lparr>start_line = 3, end_line = 3\<rparr>
                    [Other_parent ''ExpressionStatement'', Other_parent ''Program'']]
        else Inl ''Unexpected token''),
      parseComponent_script = (\<lambda>content. None)\<rparr>"

definition twice_listing :: "entry list" where
  "twice_listing =
     [Dir ''x'' [File ''index.js'' (Inr init_short)], Dir ''y'' [File ''index.js'' (Inr init_long)]]"

definition call_b :: "arg list \<Rightarrow> ast_node" where
  "call_b args =
     CallExpression \<lparr>type_callee = ''Identifier'', name_callee = ''b''\<rparr> args
       \<lparr>start_line = 2, end_line = 2\<rparr>
       [Other_parent ''ExpressionStatement'', Other_parent ''BlockStatement'',
        FunctionDeclaration_parent (Some ''a''), Other_parent ''Program'']"

definition empty_state :: state where
  "empty_state = \<lparr>nodes = [], edges = [], console = []\<rparr>"

definition builtin_env :: env where
  "builtin_env =
     \<lparr>acorn_parse = (\<lambda>content.
        if content = ''parseInt(x)''
        then Inr [CallExpression \<lparr>type_callee = ''Identifier'', name_callee = ''parseInt''\<rparr>
                    [Identifier ''x''] \<lparr>start_line = 1, end_line = 1\<rparr>
                    [Other_parent ''ExpressionStatement'', Other_parent ''Program'']]
        else Inl ''Unexpected token''),
      parseComponent_script = (\<lambda>content. None)\<rparr>"

definition malformed_env :: env where
  "malformed_env =
     \<lparr>acorn_parse = (\<lambda>content.
        if content = ''function {''
        then Inl ''Unexpected token (1:9)''
        else if content = ''function ok() {}''
        then Inr [FunctionDeclaration (Some ''ok'') \<lparr>start_line = 1, end_line = 1\<rparr>]
        else Inl ''Unexpected token''),
      parseComponent_script = (\<lambda>content. None)\<rparr>"

section \<open>The loop of \<^verbatim>\<open>deduplicate\<close>\<close>

lemma filter_loop_hit:
  "map_of seen (keyFn item) = Some j \<Longrightarrow>
   filter_loop keyFn getL setL vis seen kept (item # rest) =
   filter_loop keyFn getL setL (vis[j := merge_item getL setL (vis ! j) item] @ [item]) seen kept rest"
  by (simp add: merge_item_def Let_def)

lemma filter_loop_miss:
  "map_of seen (keyFn item) = None \<Longrightarrow>
   filter_loop keyFn getL setL vis seen kept (item # rest) =
   filter_loop keyFn getL setL (vis @ [item]) (seen @ [(keyFn item, length vis)])
     (kept @ [length vis]) rest"
  by (simp add: Let_def)

lemma key_merge_item:
  "(\<And>v x. keyFn (setL v x) = keyFn x) \<Longrightarrow> keyFn (merge_item getL setL r x) = keyFn r"
  by (simp add: merge_item_def)

lemma seen_ok_hit:
  assumes inv: "\<And>v x. keyFn (setL v x) = keyFn x"
    and ok: "seen_ok keyFn vis seen"
  shows "seen_ok keyFn (vis[j := merge_item getL setL (vis ! j) item] @ [item]) seen"
  unfolding seen_ok_def
proof (intro conjI ballI)
  show "distinct (map fst seen)" using ok by (simp add: seen_ok_def)
next
  fix p assume p: "p \<in> set seen"
  obtain k i where [simp]: "p = (k, i)" by (cases p)
  from ok p have i: "i < length vis" and k: "keyFn (vis ! i) = k"
    by (auto simp: seen_ok_def)
  have "keyFn ((vis[j := merge_item getL setL (vis ! j) item]) ! i) = k"
    using i k key_merge_item[of keyFn setL getL "vis ! j" item, OF inv]
    by (cases "i = j") simp_all
  then show "case p of (k, ja) \<Rightarrow>
      ja < length (vis[j := merge_item getL setL (vis ! j) item] @ [item]) \<and>
      keyFn ((vis[j := merge_item getL setL (vis ! j) item] @ [item]) ! ja) = k"
    using i by (simp add: nth_append)
qed

lemma seen_ok_miss:
  assumes ok: "seen_ok keyFn vis seen" and new: "map_of seen (keyFn item) = None"
  shows "seen_ok keyFn (vis @ [item]) (seen @ [(keyFn item, length vis)])"
proof -
  have "keyFn item \<notin> fst ` set seen" using new by (simp add: map_of_eq_None_iff)
  then show ?thesis using ok
    by (auto simp: seen_ok_def nth_append)
qed

lemma filter_loop_inv:
  assumes inv: "\<And>v x. keyFn (setL v x) = keyFn x"
  shows "seen_ok keyFn vis seen \<Longrightarrow>
    filter_loop keyFn getL setL vis seen kept items = (h, seen', kept') \<Longrightarrow>
    seen_ok keyFn h seen' \<and> length h = length vis + length items \<and>
    (kept = map snd seen \<longrightarrow> kept' = map snd seen')"
proof (induction items arbitrary: vis seen kept)
  case Nil
  then show ?case by simp
next
  case (Cons item rest)
  show ?case
  proof (cases "map_of seen (keyFn item)")
    case None
    from Cons.prems(2) have run: "filter_loop keyFn getL setL (vis @ [item])
        (seen @ [(keyFn item, length vis)]) (kept @ [length vis]) rest = (h, seen', kept')"
      by (simp only: filter_loop_miss[where keyFn=keyFn and item=item, OF None])
    from Cons.IH[OF seen_ok_miss[OF Cons.prems(1) None] run]
    show ?thesis by simp
  next
    case (Some j)
    from Cons.prems(2) have run: "filter_loop keyFn getL setL
        (vis[j := merge_item getL setL (vis ! j) item] @ [item]) seen kept rest = (h, seen', kept')"
      by (simp only: filter_loop_hit[where keyFn=keyFn and item=item, OF Some])
    from Cons.IH[OF seen_ok_hit[OF inv Cons.prems(1)] run]
    show ?thesis by simp
  qed
qed

lemma filter_loop_key:
  assumes inv: "\<And>v x. keyFn (setL v x) = keyFn x"
  shows "seen_ok keyFn vis seen \<Longrightarrow>
    filter_loop keyFn getL setL vis seen kept items = (h, seen', kept') \<Longrightarrow>
    (case map_of seen K of
       Some j \<Rightarrow> map_of seen' K = Some j \<and>
         h ! j = foldl (merge_item getL setL) (vis ! j) (filter (\<lambda>x. keyFn x = K) items)
     | None \<Rightarrow>
         (case filter (\<lambda>x. keyFn x = K) items of
            [] \<Rightarrow> map_of seen' K = None
          | x # ys \<Rightarrow> \<exists>j. map_of seen' K = Some j \<and> h ! j = foldl (merge_item getL setL) x ys))"
proof (induction items arbitrary: vis seen kept)
  case Nil
  then show ?case by (simp split: option.splits)
next
  case (Cons item rest)
  show ?case
  proof (cases "map_of seen (keyFn item)")
    case None
    let ?vis = "vis @ [item]" and ?seen = "seen @ [(keyFn item, length vis)]"
    from Cons.prems(2) have run: "filter_loop keyFn getL setL ?vis ?seen (kept @ [length vis]) rest
         = (h, seen', kept')"
      by (simp only: filter_loop_miss[where keyFn=keyFn and item=item, OF None])
    note IH = Cons.IH[OF seen_ok_miss[OF Cons.prems(1) None] run]
    show ?thesis
    proof (cases "K = keyFn item")
      case True
      have m: "map_of ?seen K = Some (length vis)" using None True
        by (simp add: map_add_def)
      show ?thesis using IH m None True by simp
    next
      case False
      have m: "map_of ?seen K = map_of seen K" using False
        by (simp add: map_add_def split: option.splits)
      have lt: "\<And>j. map_of seen K = Some j \<Longrightarrow> j < length vis"
        using Cons.prems(1) by (auto simp: seen_ok_def dest!: map_of_SomeD)
      show ?thesis using IH m False lt
        by (auto simp: nth_append split: option.splits)
    qed
  next
    case (Some j0)
    let ?vis = "vis[j0 := merge_item getL setL (vis ! j0) item] @ [item]"
    from Cons.prems(2) have run: "filter_loop keyFn getL setL ?vis seen kept rest = (h, seen', kept')"
      by (simp only: filter_loop_hit[where keyFn=keyFn and item=item, OF Some])
    note IH = Cons.IH[OF seen_ok_hit[OF inv Cons.prems(1)] run]
    have j0: "j0 < length vis" "keyFn (vis ! j0) = keyFn item"
      using Cons.prems(1) Some by (auto simp: seen_ok_def dest!: map_of_SomeD)
    show ?thesis
    proof (cases "K = keyFn item")
      case True
      show ?thesis using IH Some True j0 by (simp add: nth_append)
    next
      case False
      have other: "\<And>j. map_of seen K = Some j \<Longrightarrow> j < length vis \<and> j \<noteq> j0"
        using Cons.prems(1) False j0 by (auto simp: seen_ok_def dest!: map_of_SomeD)
      show ?thesis using IH False other
        by (auto simp: nth_append split: option.splits)
    qed
  qed
qed

section \<open>What \<^verbatim>\<open>deduplicate\<close> returns\<close>

lemma filter_key_single:
  "distinct (map f xs) \<Longrightarrow> x \<in> set xs \<Longrightarrow> filter (\<lambda>y. f y = f x) xs = [x]"
proof (induction xs)
  case Nil
  then show ?case by simp
next
  case (Cons a xs)
  show ?case
  proof (cases "a = x")
    case True
    have "\<And>y. y \<in> set xs \<Longrightarrow> f y \<noteq> f x" using Cons.prems(1) True by (auto simp: image_iff)
    then have "filter (\<lambda>y. f y = f x) xs = []" by (simp add: filter_empty_conv)
    then show ?thesis using True by simp
  next
    case False
    then have x: "x \<in> set xs" using Cons.prems(2) by simp
    then have "f a \<noteq> f x" using Cons.prems(1) by auto
    then show ?thesis using Cons.IH x Cons.prems(1) by simp
  qed
qed


lemma seen_ok_empty: "seen_ok keyFn [] []"
  by (simp add: seen_ok_def)

lemma seen_ok_keys:
  "seen_ok keyFn h seen \<Longrightarrow> map keyFn (map (\<lambda>a. h ! a) (map snd seen)) = map fst seen"
  by (induction seen) (auto simp: seen_ok_def)


lemma deduplicate_group:
  assumes inv: "\<And>v x. keyFn (setL v x) = keyFn x"
    and grp: "filter (\<lambda>x. keyFn x = K) array = x # ys"
  shows "filter (\<lambda>r. keyFn r = K) (snd (deduplicate array keyFn getL setL)) =
           [foldl (merge_item getL setL) x ys]"
proof -
  obtain h seen kept where run: "filter_loop keyFn getL setL [] [] [] array = (h, seen, kept)"
    by (cases "filter_loop keyFn getL setL [] [] [] array") auto
  from filter_loop_inv[OF inv seen_ok_empty run]
  have ok: "seen_ok keyFn h seen" and kept: "kept = map snd seen" by simp_all
  let ?res = "map (\<lambda>a. h ! a) kept"
  have keys: "map keyFn ?res = map fst seen" using seen_ok_keys[OF ok] kept by simp
  have dist: "distinct (map keyFn ?res)" using keys ok by (simp add: seen_ok_def)
  from filter_loop_key[OF inv seen_ok_empty run, of K] grp
  obtain j where j: "map_of seen K = Some j" and hj: "h ! j = foldl (merge_item getL setL) x ys"
    by auto
  from j have mem: "(K, j) \<in> set seen" by (rule map_of_SomeD)
  then have "h ! j \<in> set ?res" using kept by force
  moreover have "keyFn (h ! j) = K" using ok mem by (auto simp: seen_ok_def)
  ultimately have "filter (\<lambda>r. keyFn r = K) ?res = [h ! j]"
    using filter_key_single[OF dist, of "h ! j"] by simp
  then show ?thesis using hj by (simp add: deduplicate_def run)
qed


lemma join_Cons_append: "join ((p @ q) # rest) sep = p @ join (q # rest) sep"
  by (cases rest) simp_all

lemma join_Cons_Cons: "join ((c # q) # rest) sep = c # join (q # rest) sep"
  by (cases rest) simp_all

lemma node_key_set_lines: "node_key (set_lines v n) = node_key n"
  by (simp add: node_key_def set_lines_def)


lemma truthy_append_lines: "truthy (append_lines a b)"
  by (simp add: truthy_def append_lines_def)

lemma foldl_merge_node:
  "foldl (merge_item lines set_lines) x ys =
     (if truthy (lines x)
      then x\<lparr>lines := Some (join (tpl (lines x) # map tpl (filter truthy (map lines ys))) '', '')\<rparr>
      else x)"
proof (induction ys arbitrary: x)
  case Nil
  then show ?case by (cases "lines x") (simp_all add: truthy_def tpl_def)
next
  case (Cons y ys)
  show ?case
  proof (cases "truthy (lines y) \<and> truthy (lines x)")
    case True
    let ?x = "set_lines (append_lines (lines x) (lines y)) x"
    have m: "merge_item lines set_lines x y = ?x" using True by (simp add: merge_item_def)
    have t: "truthy (lines ?x)" by (simp add: set_lines_def truthy_append_lines)
    have l: "tpl (lines ?x) = tpl (lines x) @ '', '' @ tpl (lines y)"
      by (simp add: set_lines_def append_lines_def tpl_def)
    show ?thesis using True
      by (simp add: m Cons.IH t l join_Cons_append join_Cons_Cons) (simp add: set_lines_def)
  next
    case False
    then have m: "merge_item lines set_lines x y = x" by (auto simp: merge_item_def)
    show ?thesis using False by (auto simp: m Cons.IH)
  qed
qed

lemma nodes_forEach_filter_loop:
  "nodes_forEach vis un items =
     (case filter_loop node_key lines set_lines vis un kept items of (h, s, k) \<Rightarrow> (h, s))"
  by (induction items arbitrary: vis un kept)
     (auto simp: Let_def node_key_def set_lines_def split: option.splits)

lemma edges_forEach_ok:
  "edges_ok ue R \<Longrightarrow> edges_forEach ue R es = (ue', R') \<Longrightarrow> edges_ok ue' R'"
proof (induction es arbitrary: ue R)
  case Nil
  then show ?case by simp
next
  case (Cons e es)
  show ?case
  proof (cases "map_of ue (edge_key e)")
    case None
    then have new: "edge_key e \<notin> fst ` set ue" by (simp add: map_of_eq_None_iff)
    have ok: "edges_ok (ue @ [(edge_key e, e)]) (insert (target e) (insert (source e) R))"
      using Cons.prems(1) new by (auto simp: edges_ok_def)
    have run: "edges_forEach (ue @ [(edge_key e, e)]) (insert (target e) (insert (source e) R)) es
        = (ue', R')"
      using Cons.prems(2) None by (simp add: edge_key_def Let_def)
    show ?thesis by (rule Cons.IH[OF ok run])
  next
    case (Some a)
    then have run: "edges_forEach ue R es = (ue', R')"
      using Cons.prems(2) by (simp add: edge_key_def Let_def)
    show ?thesis by (rule Cons.IH[OF Cons.prems(1) run])
  qed
qed

lemma edges_ok_empty: "edges_ok [] {}"
  by (simp add: edges_ok_def)


lemma deduplicate_graph_edges:
  "edges_of (snd (deduplicate_graph ns es)) = map snd (fst (edges_forEach [] {} es))"
  by (simp add: deduplicate_graph_def split: prod.splits)

lemma deduplicate_graph_nodes:
  "nodes_of (snd (deduplicate_graph ns es)) =
     filter (\<lambda>n. id_node n \<in> source ` set (edges_of (snd (deduplicate_graph ns es))) \<union>
                             target ` set (edges_of (snd (deduplicate_graph ns es))))
       (snd (deduplicate ns node_key lines set_lines))"
proof -
  obtain h un where n: "nodes_forEach [] [] ns = (h, un)" by (cases "nodes_forEach [] [] ns") auto
  obtain ue R where e: "edges_forEach [] {} es = (ue, R)" by (cases "edges_forEach [] {} es") auto
  obtain h' s k where f: "filter_loop node_key lines set_lines [] [] [] ns = (h', s, k)"
    by (cases "filter_loop node_key lines set_lines [] [] [] ns") auto
  have hs: "h' = h" "s = un" using nodes_forEach_filter_loop[of "[]" "[]" ns "[]"] n f by simp_all
  have k: "k = map snd un"
    using filter_loop_inv[OF node_key_set_lines seen_ok_empty f] hs by simp
  have R: "R = source ` set (map snd ue) \<union> target ` set (map snd ue)"
    using edges_forEach_ok[OF edges_ok_empty e] by (simp add: edges_ok_def)
  have m: "(\<lambda>(k, a). h ! a) = ((!) h \<circ> snd)" by (auto simp: fun_eq_iff)
  show ?thesis
    using R by (simp add: deduplicate_graph_def deduplicate_def n e f hs k m)
qed

section \<open>Evaluation on concrete inputs\<close>

text \<open>The defining equations, for evaluating the model on a concrete input by rewriting.\<close>

lemmas model_defs =
  truthy_def tpl_def node_key_def edge_key_def append_lines_def set_lines_def edge_lines_def
  set_edge_lines_def split_str_def at_index_def or_else_def path_join_def basename_def
  extname_def toLowerCase_def range_text_def is_function_literal_def console_log_def
  console_warn_def console_error_def null_name_error_def addNode_def addEdge_def
  import_specifier_def export_property_def parseJavaScript_def log_if_def parseFile_def
  ignoreDirs_def allowedExtensions_def scanDirectory_def addNode_reg_def addEdge_reg_def
  track_call_def export_property_reg_def addNode_arg_def ensureNodeExists_def addEdge_arg_def
  import_specifier_arg_def export_property_arg_def deduplicate_def deduplicate_graph_def
  newline_def node_line_def edge_line_def print_report_def displayResults_def
  node_line_graph_def edge_line_arg_def not_anonymous_def displayResults_graph_def
  script_start_def script_catch_def usage_error_def main_def main_arg_def csv_field_def
  nodesCsv_def edgesCsv_def write_output_def main_reg_def Let_def

section \<open>Edge uniqueness\<close>







section \<open>The referenced-only filter\<close>

text \<open>
  C1, as the two variants implement it. \<^verbatim>\<open>deduplicate(nodes, edges)\<close> returns exactly the
  deduplicated nodes whose id is the source or the target of a returned edge, so every
  returned node has an incident returned edge.  The deduplicated nodes are the records
  that \<^verbatim>\<open>deduplicate(nodes, keyFn)\<close> of \<^verbatim>\<open>index.js\<close> returns for the same array: the two
  loops keep and merge alike.
\<close>

theorem referenced_only_filter:
  "nodes_of (snd (deduplicate_graph ns es)) =
     filter (\<lambda>n. \<exists>e \<in> set (edges_of (snd (deduplicate_graph ns es))).
                   source e = id_node n \<or> target e = id_node n)
       (snd (deduplicate ns node_key lines set_lines)) \<and>
   (\<forall>n \<in> set (nodes_of (snd (deduplicate_graph ns es))).
      \<exists>e \<in> set (edges_of (snd (deduplicate_graph ns es))).
        source e = id_node n \<or> target e = id_node n)"
proof -
  let ?E = "edges_of (snd (deduplicate_graph ns es))"
  have P: "\<And>n. (id_node n \<in> source ` set ?E \<union> target ` set ?E) =
             (\<exists>e \<in> set ?E. source e = id_node n \<or> target e = id_node n)"
    by (auto simp: image_iff) metis+
  have eq: "nodes_of (snd (deduplicate_graph ns es)) =
     filter (\<lambda>n. \<exists>e \<in> set ?E. source e = id_node n \<or> target e = id_node n)
       (snd (deduplicate ns node_key lines set_lines))"
    by (subst deduplicate_graph_nodes) (simp only: P)
  have "\<forall>n \<in> set (nodes_of (snd (deduplicate_graph ns es))).
      \<exists>e \<in> set ?E. source e = id_node n \<or> target e = id_node n"
    by (subst eq) simp
  with eq show ?thesis by (rule conjI)
qed

theorem referenced_only_filter_witness:
  "sample_node ''function'' None \<in>
     set (nodes_of (snd (deduplicate_graph [sample_node ''function'' None] [sample_edge ''calls'']))) \<and>
   (\<exists>e \<in> set (edges_of (snd (deduplicate_graph [sample_node ''function'' None]
                                  [sample_edge ''calls'']))).
      source e = id_node (sample_node ''function'' None) \<or>
      target e = id_node (sample_node ''function'' None)) \<and>
   nodes_of (snd (deduplicate_graph [sample_node ''function'' None] [])) = []"
  using referenced_only_filter[of "[sample_node ''function'' None]" "[sample_edge ''calls'']"]
    referenced_only_filter[of "[sample_node ''function'' None]" "[]"]
  by (simp add: sample_node_def sample_edge_def model_defs)

text \<open>
  C1 as stated fails for \<^verbatim>\<open>index.js\<close>, whose \<^verbatim>\<open>displayResults\<close> reports every
  deduplicated node: on one file that declares a function and calls nothing, the script
  prints the node and no edge.
\<close>

theorem index_reports_unreferenced_node:
  "console (main isolated_env (Some ''src'') [File ''a.js'' (Inr ''function isolated(){}'')]) =
     [Log ''Analyzing directory: src'', Log ''Processing file: src/a.js'',
      Log ''Parsing file: src/a.js, extension: .js'', Log ''Nodes:'',
      Log ''a.js:isolated [1-1] - isolated (method)'', Log (newline @ ''Edges:''),
      Log (newline @ ''Total unique nodes: 1''), Log ''Total unique edges: 0'']"
  by (simp add: isolated_env_def model_defs)

section \<open>Merged provenance\<close>

text \<open>
  The record kept for a key is the first object with that key.  If its \<^verbatim>\<open>lines\<close> are
  truthy, the truthy \<^verbatim>\<open>lines\<close> of the later objects with the key are appended to it in
  order; if not, it stays as it is.
\<close>

lemma deduplicate_representative:
  assumes grp: "filter (\<lambda>n. node_key n = K) ns = x # ys"
  shows "filter (\<lambda>r. node_key r = K) (snd (deduplicate ns node_key lines set_lines)) =
           [if truthy (lines x)
            then x\<lparr>lines := Some (join (tpl (lines x) # map tpl (filter truthy (map lines ys))) '', '')\<rparr>
            else x]"
  using deduplicate_group[of node_key set_lines K ns x ys lines, OF node_key_set_lines grp]
  by (simp only: foldl_merge_node)

lemma filter_referenced:
  "filter P (filter Q xs) = filter Q (filter P xs)"
  by (simp add: conj_commute)

lemma deduplicate_graph_representative:
  assumes grp: "filter (\<lambda>n. node_key n = K) ns = x # ys"
  shows "filter (\<lambda>r. node_key r = K) (nodes_of (snd (deduplicate_graph ns es))) =
           (if id_node x \<in> source ` set (edges_of (snd (deduplicate_graph ns es))) \<union>
                             target ` set (edges_of (snd (deduplicate_graph ns es)))
            then [if truthy (lines x)
                  then x\<lparr>lines := Some (join (tpl (lines x) # map tpl (filter truthy (map lines ys))) '', '')\<rparr>
                  else x]
            else [])"
  by (subst deduplicate_graph_nodes, subst filter_referenced,
      subst deduplicate_representative[OF grp]) simp



text \<open>
  C6, as the code merges.  The record kept for a key is the first object \<open>x\<close> with the key.
  If its \<^verbatim>\<open>lines\<close> are truthy, they are kept and the later truthy \<^verbatim>\<open>lines\<close> are appended:
  a later object with missing or empty \<^verbatim>\<open>lines\<close> changes nothing and injects nothing.  If
  the \<^verbatim>\<open>lines\<close> of \<open>x\<close> are missing or empty, the record is \<open>x\<close> unchanged, whatever
  ranges the later objects carry.
\<close>

theorem merge_keeps_representative:
  assumes grp: "filter (\<lambda>n. node_key n = K) ns = x # ys"
  shows "filter (\<lambda>r. node_key r = K) (snd (deduplicate ns node_key lines set_lines)) =
           [if truthy (lines x)
            then x\<lparr>lines := Some (join (tpl (lines x) # map tpl (filter truthy (map lines ys))) '', '')\<rparr>
            else x] \<and>
         filter (\<lambda>r. node_key r = K) (nodes_of (snd (deduplicate_graph ns es))) =
           (if id_node x \<in> source ` set (edges_of (snd (deduplicate_graph ns es))) \<union>
                             target ` set (edges_of (snd (deduplicate_graph ns es)))
            then [if truthy (lines x)
                  then x\<lparr>lines := Some (join (tpl (lines x) # map tpl (filter truthy (map lines ys))) '', '')\<rparr>
                  else x]
            else [])"
  using deduplicate_representative[OF grp] deduplicate_graph_representative[OF grp, of es]
  by (rule conjI)

theorem merge_keeps_representative_witness:
  "filter (\<lambda>r. node_key r = ''a.js:f-method'')
     (snd (deduplicate
        [sample_node ''method'' (Some ''[1-2]''), sample_node ''method'' None,
         sample_node ''method'' (Some ''''), sample_node ''method'' (Some ''[8-8]'')]
        node_key lines set_lines)) =
     [sample_node ''method'' (Some ''[1-2], [8-8]'')] \<and>
   filter (\<lambda>r. node_key r = ''a.js:f-method'')
     (snd (deduplicate
        [sample_node ''method'' None, sample_node ''method'' (Some ''[3-4]'')]
        node_key lines set_lines)) =
     [sample_node ''method'' None]"
  using merge_keeps_representative[of "''a.js:f-method''"
      "[sample_node ''method'' (Some ''[1-2]''), sample_node ''method'' None,
        sample_node ''method'' (Some ''''), sample_node ''method'' (Some ''[8-8]'')]"
      "sample_node ''method'' (Some ''[1-2]'')"
      "[sample_node ''method'' None,
        sample_node ''method'' (Some ''''), sample_node ''method'' (Some ''[8-8]'')]" "[]"]
    merge_keeps_representative[of "''a.js:f-method''"
      "[sample_node ''method'' None, sample_node ''method'' (Some ''[3-4]'')]"
      "sample_node ''method'' None" "[sample_node ''method'' (Some ''[3-4]'')]" "[]"]
  by (simp add: sample_node_def node_key_def truthy_def tpl_def)

text \<open>
  C6 as stated fails: an observation with the range \<^verbatim>\<open>[3-4]\<close> merged into a first
  observation without \<^verbatim>\<open>lines\<close> leaves a final record without \<^verbatim>\<open>lines\<close>.
\<close>

theorem range_dropped_by_empty_representative:
  "snd (deduplicate [sample_node ''method'' None, sample_node ''method'' (Some ''[3-4]'')]
          node_key lines set_lines) = [sample_node ''method'' None] \<and>
   nodes_of (snd (deduplicate_graph
          [sample_node ''method'' None, sample_node ''method'' (Some ''[3-4]'')]
          [sample_edge ''calls''])) = [sample_node ''method'' None]"
  by (simp add: sample_node_def sample_edge_def model_defs)

section \<open>Running the deduplication twice\<close>

text \<open>
  C3 fails on the code.  \<^verbatim>\<open>deduplicate\<close> appends to the \<^verbatim>\<open>lines\<close> of objects of the array
  it is given, so a second call on the same array appends the later ranges once more.
  The registry variant makes that second call when \<^verbatim>\<open>--output\<close> is given: for two files
  of the same base name that declare \<^verbatim>\<open>init\<close> at lines 1-1 and at lines 1-2, the first
  call merges the provenance to \<^verbatim>\<open>[1-1], [1-2]\<close> and the CSV file, written from the second
  call, holds \<^verbatim>\<open>[1-1], [1-2], [1-2]\<close>.
\<close>

theorem second_run_repeats_ranges:
  "(case deduplicate_graph
           [sample_node ''function'' (Some ''[1-1]''), sample_node ''function'' (Some ''[1-2]'')]
           [sample_edge ''calls''] of
      (ns1, g1) \<Rightarrow>
        (case deduplicate_graph ns1 [sample_edge ''calls''] of
           (ns2, g2) \<Rightarrow>
             nodes_of g1 = [sample_node ''function'' (Some ''[1-1], [1-2]'')] \<and>
             nodes_of g2 = [sample_node ''function'' (Some ''[1-1], [1-2], [1-2]'')])) \<and>
   written (main_reg twice_env (Some ''src'') (Some ''out'') twice_listing) =
     [(''out_nodes.csv'',
       ''id,label,type,lines'' @ newline @
       ''index.js:init,init,function,[1-1], [1-2], [1-2]''),
      (''out_edges.csv'',
       ''source,target,type'' @ newline @ ''index.js:global,index.js:init,calls'')]"
  by (simp add: sample_node_def sample_edge_def twice_env_def twice_listing_def init_short_def
        init_long_def model_defs)

section \<open>The caller of a call expression\<close>




lemma edges_ensureNodeExists: "edges (ensureNodeExists i l t st) = edges st"
  by (simp add: ensureNodeExists_def addNode_arg_def Let_def)

lemma edges_addEdge_arg:
  "edges (addEdge_arg s t ty st) = edges st @ [\<lparr>source = s, target = t, type_edge = ty\<rparr>]"
  by (simp add: addEdge_arg_def Let_def edges_ensureNodeExists)




section \<open>The argument list of a call\<close>

text \<open>
  C5, as the argument-tracking variant does it.  The rendering of the arguments is put
  into the \<^verbatim>\<open>type\<close> of the edge, \<^verbatim>\<open>calls(...)\<close>, and the type is part of the key.  Two
  call expressions with the same callee and the same resolved caller give two edge
  observations, which collapse to one edge exactly when their renderings are equal.
\<close>

theorem arguments_are_part_of_the_key:
  assumes "type_callee c = ''Identifier''"
    and "render_args args1 = Inr texts1" and "render_args args2 = Inr texts2"
    and "walk_simple (visit_arg fileName)
           [CallExpression c args1 l parents, CallExpression c args2 l parents] empty_state = (err, st)"
    and "caller = containing_function fileName
                    (fileName @ '':anonymous['' @ show_nat (start_line l) @ '']'') parents"
    and "e1 = \<lparr>source = caller, target = name_callee c,
               type_edge = ''calls('' @ join texts1 '', '' @ '')''\<rparr>"
    and "e2 = \<lparr>source = caller, target = name_callee c,
               type_edge = ''calls('' @ join texts2 '', '' @ '')''\<rparr>"
  shows "edges st = [e1, e2] \<and>
         edges_of (snd (deduplicate_graph (nodes st) (edges st))) =
           (if join texts1 '', '' = join texts2 '', '' then [e1] else [e1, e2])"
proof -
  have es: "edges st = [e1, e2]"
    using assms by (auto simp: Let_def edges_addEdge_arg empty_state_def simp del: show_nat.simps)
  have g: "edges_of (snd (deduplicate_graph (nodes st) [e1, e2])) =
      (if join texts1 '', '' = join texts2 '', '' then [e1] else [e1, e2])"
    using assms(6,7) by (simp add: deduplicate_graph_edges Let_def)
  show ?thesis unfolding es using g by simp
qed

theorem arguments_are_part_of_the_key_witness:
  "edges_of (snd (deduplicate_graph
      (nodes (snd (walk_simple (visit_arg ''a.js'')
         [call_b [Literal (Json ''1'')], call_b [Literal (Json ''1'')]] empty_state)))
      (edges (snd (walk_simple (visit_arg ''a.js'')
         [call_b [Literal (Json ''1'')], call_b [Literal (Json ''1'')]] empty_state))))) =
     [\<lparr>source = ''a.js:a'', target = ''b'', type_edge = ''calls(1)''\<rparr>]"
proof -
  let ?c = "\<lparr>type_callee = ''Identifier'', name_callee = ''b''\<rparr>"
  let ?l = "\<lparr>start_line = 2, end_line = 2\<rparr>"
  let ?ps = "[Other_parent ''ExpressionStatement'', Other_parent ''BlockStatement'',
              FunctionDeclaration_parent (Some ''a''), Other_parent ''Program'']"
  let ?run = "walk_simple (visit_arg ''a.js'')
                [CallExpression ?c [Literal (Json ''1'')] ?l ?ps,
                 CallExpression ?c [Literal (Json ''1'')] ?l ?ps] empty_state"
  let ?e = "\<lparr>source = ''a.js:a'', target = ''b'', type_edge = ''calls(1)''\<rparr>"
  have h1: "type_callee ?c = ''Identifier''" by simp
  have h2: "render_args [Literal (Json ''1'')] = Inr [''1'']" by simp
  have h4: "?run = (fst ?run, snd ?run)" by simp
  have h5: "''a.js:a'' = containing_function ''a.js''
                (''a.js'' @ '':anonymous['' @ show_nat (start_line ?l) @ '']'') ?ps"
    by simp
  have h6: "?e = \<lparr>source = ''a.js:a'', target = name_callee ?c,
                   type_edge = ''calls('' @ join [''1''] '', '' @ '')''\<rparr>"
    by simp
  have "edges_of (snd (deduplicate_graph (nodes (snd ?run)) (edges (snd ?run)))) =
          (if join [''1''] '', '' = join [''1''] '', '' then [?e] else [?e, ?e])"
    by (rule conjunct2[OF arguments_are_part_of_the_key[OF h1 h2 h2 h4 h5 h6 h6]])
  then have "edges_of (snd (deduplicate_graph (nodes (snd ?run)) (edges (snd ?run)))) = [?e]"
    by (simp only: simp_thms if_True)
  then show ?thesis by (simp only: call_b_def)
qed

text \<open>
  C5 as stated fails: the calls \<^verbatim>\<open>b(1)\<close> and \<^verbatim>\<open>b(2)\<close> inside the function \<^verbatim>\<open>a\<close> have the
  same source and target and remain two edges after deduplication.
\<close>

theorem different_arguments_two_edges:
  "edges_of (snd (deduplicate_graph
      (nodes (snd (walk_simple (visit_arg ''a.js'')
         [call_b [Literal (Json ''1'')], call_b [Literal (Json ''2'')]] empty_state)))
      (edges (snd (walk_simple (visit_arg ''a.js'')
         [call_b [Literal (Json ''1'')], call_b [Literal (Json ''2'')]] empty_state))))) =
     [\<lparr>source = ''a.js:a'', target = ''b'', type_edge = ''calls(1)''\<rparr>,
      \<lparr>source = ''a.js:a'', target = ''b'', type_edge = ''calls(2)''\<rparr>]"
  by (simp add: call_b_def empty_state_def model_defs)

section \<open>Edges to undeclared targets\<close>

text \<open>
  C8. For a file that only calls \<^verbatim>\<open>parseInt(x)\<close>, \<^verbatim>\<open>index.js\<close> records the edge from the
  anonymous caller to \<^verbatim>\<open>parseInt\<close> and no node at all, so the target was never declared
  as an entity; \<^verbatim>\<open>deduplicate\<close> keeps the edge.
\<close>

theorem edge_to_undeclared_target:
  "(case scanDirectory builtin_env True visit ''src'' [File ''a.js'' (Inr ''parseInt(x)'')]
           empty_state of
      (err, st) \<Rightarrow>
        err = None \<and> nodes st = [] \<and>
        edges st = [\<lparr>source = ''a.js:anonymous[1-1]'', target = ''parseInt'', type_edge = ''calls''\<rparr>] \<and>
        snd (deduplicate (edges st) edge_key edge_lines set_edge_lines) =
          [\<lparr>source = ''a.js:anonymous[1-1]'', target = ''parseInt'', type_edge = ''calls''\<rparr>])"
  by (simp add: builtin_env_def empty_state_def model_defs)

section \<open>Invariants of a scan\<close>

lemma walk_simple_invariant:
  assumes vis: "\<And>n st. P st \<Longrightarrow> P (snd (visit1 n st))"
  shows "P st \<Longrightarrow> P (snd (walk_simple visit1 ns st))"
proof (induction ns arbitrary: st)
  case Nil
  then show ?case by simp
next
  case (Cons n ns)
  obtain r st' where v: "visit1 n st = (r, st')" by (cases "visit1 n st") auto
  have p: "P st'" using vis[OF Cons.prems, of n] v by simp
  show ?case
  proof (cases r)
    case None
    then show ?thesis using v Cons.IH[OF p] by simp
  next
    case (Some err)
    then show ?thesis using v p by simp
  qed
qed

lemma log_if_invariant:
  assumes con: "\<And>st c. P st \<Longrightarrow> P (st\<lparr>console := c\<rparr>)"
  shows "P st \<Longrightarrow> P (log_if verbose s st)"
  by (simp add: log_if_def console_log_def con)

lemma parseJavaScript_invariant:
  assumes vis: "\<And>f n st. P st \<Longrightarrow> P (snd (visitors f n st))"
    and con: "\<And>st c. P st \<Longrightarrow> P (st\<lparr>console := c\<rparr>)"
  shows "P st \<Longrightarrow> P (snd (parseJavaScript E visitors filePath content st))"
  by (cases "acorn_parse E content")
     (simp_all add: parseJavaScript_def console_warn_def con walk_simple_invariant[where P=P, OF vis])

lemma parseFile_invariant:
  assumes vis: "\<And>f n st. P st \<Longrightarrow> P (snd (visitors f n st))"
    and con: "\<And>st c. P st \<Longrightarrow> P (st\<lparr>console := c\<rparr>)"
  shows "P st \<Longrightarrow> P (snd (parseFile E verbose visitors filePath readFileSync st))"
proof -
  assume p: "P st"
  note pj = parseJavaScript_invariant[where P=P and visitors=visitors, OF vis con]
  note lg = log_if_invariant[where P=P, OF con]
  show ?thesis
    by (cases readFileSync)
       (auto simp: parseFile_def Let_def p intro!: pj lg split: option.splits)
qed

lemma scan_invariant:
  assumes con: "\<And>st c. P st \<Longrightarrow> P (st\<lparr>console := c\<rparr>)"
  shows "(\<And>f n st. P st \<Longrightarrow> P (snd (visitors f n st))) \<Longrightarrow> P st \<Longrightarrow>
           P (snd (scan E verbose visitors dir listing st))"
    and "(\<And>f n st. P st \<Longrightarrow> P (snd (visitors f n st))) \<Longrightarrow> P st \<Longrightarrow>
           P (snd (scan_entry E verbose visitors dir e st))"
proof (induction E verbose visitors dir listing st and E verbose visitors dir e st
    rule: scan_scan_entry.induct)
  case (1 E verbose visitors dir st)
  then show ?case by simp
next
  case (2 E verbose visitors dir f files st)
  obtain r st' where s: "scan_entry E verbose visitors dir f st = (r, st')"
    by (cases "scan_entry E verbose visitors dir f st") auto
  have p: "P st'" using "2.IH"(1)[OF "2.prems"] s by simp
  show ?case
  proof (cases r)
    case None
    then show ?thesis using s "2.IH"(2)[OF s[symmetric] None "2.prems"(1) p] by simp
  next
    case (Some err)
    then show ?thesis using s p by simp
  qed
next
  case (3 E verbose visitors dir fl message st)
  then show ?case by simp
next
  case (4 E verbose visitors dir fl st)
  then show ?case by simp
next
  case (5 E verbose visitors dir fl listing st)
  then show ?case by simp
next
  case (6 E verbose visitors dir fl readFileSync st)
  have lg: "P (log_if verbose (''Processing file: '' @ path_join dir fl) st)"
    using con "6.prems"(2) by (simp add: log_if_def console_log_def)
  have "P (snd (parseFile E verbose visitors (path_join dir fl) readFileSync
               (log_if verbose (''Processing file: '' @ path_join dir fl) st)))"
  proof (rule parseFile_invariant[where P=P])
    show "\<And>f n st. P st \<Longrightarrow> P (snd (visitors f n st))" by (rule "6.prems"(1))
    show "\<And>st c. P st \<Longrightarrow> P (st\<lparr>console := c\<rparr>)" by (rule con)
    show "P (log_if verbose (''Processing file: '' @ path_join dir fl) st)" by (rule lg)
  qed
  then show ?case using "6.prems"(2) con
    by (auto simp: Let_def console_warn_def split: prod.splits option.splits)
qed

section \<open>Endpoints of an edge in the argument-tracking variant\<close>

lemma nodes_addNode_arg: "\<exists>n. nodes (addNode_arg i l t ls st) = nodes st @ [n] \<and> id_node n = i"
  by (simp add: addNode_arg_def Let_def)

lemma edges_addNode_arg: "edges (addNode_arg i l t ls st) = edges st"
  by (simp add: addNode_arg_def Let_def)

lemma has_node_ensure: "has_node i (ensureNodeExists i l t st)"
  by (simp add: has_node_def ensureNodeExists_def addNode_arg_def Let_def list_ex_iff)

lemma nodes_ensure: "\<exists>new. nodes (ensureNodeExists i l t st) = nodes st @ new"
  by (simp add: ensureNodeExists_def addNode_arg_def Let_def)

lemma ensure_inferred:
  "\<not> has_node i st \<Longrightarrow>
   \<exists>n \<in> set (nodes (ensureNodeExists i l ''unknown'' st)).
     id_node n = i \<and> type_node n = inferred_type i \<and> lines n = None"
  by (simp add: has_node_def ensureNodeExists_def addNode_arg_def Let_def inferred_type_def)

lemma nodes_addEdge_arg: "\<exists>new. nodes (addEdge_arg s t ty st) = nodes st @ new"
proof -
  let ?l1 = "or_else (at_index (split_str s '':'') 1) (Some s)"
  let ?l2 = "or_else (at_index (split_str t '':'') 1) (Some t)"
  let ?st1 = "ensureNodeExists s ?l1 ''unknown'' st"
  obtain new1 where n1: "nodes ?st1 = nodes st @ new1" using nodes_ensure by blast
  obtain new2 where n2: "nodes (ensureNodeExists t ?l2 ''unknown'' ?st1) = nodes ?st1 @ new2"
    using nodes_ensure by blast
  have "nodes (addEdge_arg s t ty st) = nodes st @ (new1 @ new2)"
    using n1 n2 by (simp add: addEdge_arg_def Let_def)
  then show ?thesis by blast
qed

lemma has_node_mono:
  "has_node i st \<Longrightarrow> nodes st' = nodes st @ new \<Longrightarrow> has_node i st'"
  by (auto simp: has_node_def list_ex_iff)

lemma endpoints_exist_mono:
  "endpoints_exist st \<Longrightarrow> edges st' = edges st \<Longrightarrow> nodes st' = nodes st @ new \<Longrightarrow>
   endpoints_exist st'"
  by (auto simp: endpoints_exist_def has_node_def list_ex_iff)

lemma has_node_addEdge_arg:
  "has_node s (addEdge_arg s t ty st) \<and> has_node t (addEdge_arg s t ty st)"
proof -
  let ?l1 = "or_else (at_index (split_str s '':'') 1) (Some s)"
  let ?l2 = "or_else (at_index (split_str t '':'') 1) (Some t)"
  let ?st1 = "ensureNodeExists s ?l1 ''unknown'' st"
  let ?st2 = "ensureNodeExists t ?l2 ''unknown'' ?st1"
  have n: "nodes (addEdge_arg s t ty st) = nodes ?st2" by (simp add: addEdge_arg_def Let_def)
  obtain new2 where n2: "nodes ?st2 = nodes ?st1 @ new2" using nodes_ensure by blast
  have "has_node s ?st2" using has_node_mono[OF has_node_ensure n2] .
  moreover have "has_node t ?st2" by (rule has_node_ensure)
  ultimately show ?thesis using n by (simp add: has_node_def)
qed

lemma inferred_addEdge_arg:
  assumes "\<not> has_node i st" and "i = s \<or> i = t"
  shows "\<exists>n \<in> set (nodes (addEdge_arg s t ty st)).
           id_node n = i \<and> type_node n = inferred_type i \<and> lines n = None"
proof -
  let ?l1 = "or_else (at_index (split_str s '':'') 1) (Some s)"
  let ?l2 = "or_else (at_index (split_str t '':'') 1) (Some t)"
  let ?st1 = "ensureNodeExists s ?l1 ''unknown'' st"
  let ?st2 = "ensureNodeExists t ?l2 ''unknown'' ?st1"
  have n: "nodes (addEdge_arg s t ty st) = nodes ?st2" by (simp add: addEdge_arg_def Let_def)
  obtain new2 where n2: "nodes ?st2 = nodes ?st1 @ new2" using nodes_ensure by blast
  show ?thesis
  proof (cases "i = s")
    case True
    from ensure_inferred[OF assms(1), of ?l1] True
    obtain m where "m \<in> set (nodes ?st1)" "id_node m = i" "type_node m = inferred_type i"
        "lines m = None" by auto
    then show ?thesis using n n2 by auto
  next
    case False
    then have t: "i = t" using assms(2) by simp
    have "\<not> has_node i ?st1" using assms(1) False
      by (auto simp: has_node_def ensureNodeExists_def addNode_arg_def Let_def list_ex_iff)
    from ensure_inferred[OF this, of ?l2] t
    show ?thesis using n by auto
  qed
qed

lemma endpoints_exist_addEdge_arg:
  assumes "endpoints_exist st"
  shows "endpoints_exist (addEdge_arg s t ty st)"
proof -
  obtain new where n: "nodes (addEdge_arg s t ty st) = nodes st @ new"
    using nodes_addEdge_arg by blast
  have old: "\<forall>e \<in> set (edges st).
      has_node (source e) (addEdge_arg s t ty st) \<and> has_node (target e) (addEdge_arg s t ty st)"
    using assms has_node_mono[OF _ n] by (auto simp: endpoints_exist_def)
  show ?thesis
    using old has_node_addEdge_arg[of s t ty st]
    by (simp add: endpoints_exist_def edges_addEdge_arg)
qed

lemma endpoints_exist_addNode_arg:
  "endpoints_exist st \<Longrightarrow> endpoints_exist (addNode_arg i l t ls st)"
  using nodes_addNode_arg[of i l t ls st] edges_addNode_arg[of i l t ls st]
  by (auto intro: endpoints_exist_mono)

lemma endpoints_exist_console:
  "endpoints_exist st \<Longrightarrow> endpoints_exist (st\<lparr>console := c\<rparr>)"
  by (simp add: endpoints_exist_def has_node_def)

lemma endpoints_exist_imports:
  "endpoints_exist st \<Longrightarrow> endpoints_exist (fold (import_specifier_arg f lib) sps st)"
  by (induction sps arbitrary: st)
     (simp_all add: import_specifier_arg_def Let_def endpoints_exist_addEdge_arg
        endpoints_exist_addNode_arg)

lemma endpoints_exist_exports:
  "endpoints_exist st \<Longrightarrow> endpoints_exist (fold (export_property_arg f) ps st)"
  by (induction ps arbitrary: st)
     (simp_all add: export_property_arg_def endpoints_exist_addNode_arg)

lemma endpoints_exist_visit_arg:
  "endpoints_exist st \<Longrightarrow> endpoints_exist (snd (visit_arg f n st))"
  by (cases n)
     (simp_all add: Let_def endpoints_exist_addEdge_arg endpoints_exist_addNode_arg
        endpoints_exist_imports endpoints_exist_exports
        split: option.splits sum.splits del: show_nat.simps)

text \<open>
  C10. In the argument-tracking variant \<^verbatim>\<open>addEdge\<close> appends the edge and leaves node
  records with the ids of its source and of its target in the node list; an endpoint
  that had no record gets one with the inferred kind and no \<^verbatim>\<open>lines\<close>; the records
  already there are kept.  Hence every edge has both endpoints among the nodes after
  \<^verbatim>\<open>addEdge\<close> if it was so before, and after any scan that starts with empty arrays.
\<close>

theorem endpoints_materialized:
  "edges (addEdge_arg s t ty st) = edges st @ [\<lparr>source = s, target = t, type_edge = ty\<rparr>] \<and>
   has_node s (addEdge_arg s t ty st) \<and> has_node t (addEdge_arg s t ty st) \<and>
   (\<forall>i \<in> {s, t}. \<not> has_node i st \<longrightarrow>
      (\<exists>n \<in> set (nodes (addEdge_arg s t ty st)).
         id_node n = i \<and> type_node n = inferred_type i \<and> lines n = None)) \<and>
   (\<exists>new. nodes (addEdge_arg s t ty st) = nodes st @ new) \<and>
   (endpoints_exist st \<longrightarrow> endpoints_exist (addEdge_arg s t ty st)) \<and>
   endpoints_exist (snd (scanDirectory E verbose visit_arg directory listing empty_state))"
proof (intro conjI ballI impI)
  show "edges (addEdge_arg s t ty st) = edges st @ [\<lparr>source = s, target = t, type_edge = ty\<rparr>]"
    by (rule edges_addEdge_arg)
  show "has_node s (addEdge_arg s t ty st)" using has_node_addEdge_arg by blast
  show "has_node t (addEdge_arg s t ty st)" using has_node_addEdge_arg by blast
  show "\<exists>new. nodes (addEdge_arg s t ty st) = nodes st @ new" by (rule nodes_addEdge_arg)
next
  fix i assume "i \<in> {s, t}" and "\<not> has_node i st"
  then show "\<exists>n \<in> set (nodes (addEdge_arg s t ty st)).
         id_node n = i \<and> type_node n = inferred_type i \<and> lines n = None"
    using inferred_addEdge_arg[of i st s t ty] by blast
next
  assume "endpoints_exist st"
  then show "endpoints_exist (addEdge_arg s t ty st)" by (rule endpoints_exist_addEdge_arg)
next
  have e: "endpoints_exist empty_state" by (simp add: endpoints_exist_def empty_state_def)
  have "endpoints_exist (snd (scan E verbose visit_arg directory listing empty_state))"
  proof (rule scan_invariant(1)[where P=endpoints_exist])
    show "\<And>st c. endpoints_exist st \<Longrightarrow> endpoints_exist (st\<lparr>console := c\<rparr>)"
      by (rule endpoints_exist_console)
    show "\<And>f n st. endpoints_exist st \<Longrightarrow> endpoints_exist (snd (visit_arg f n st))"
      by (rule endpoints_exist_visit_arg)
    show "endpoints_exist empty_state" by (rule e)
  qed
  then show "endpoints_exist (snd (scanDirectory E verbose visit_arg directory listing empty_state))"
    by (simp add: scanDirectory_def)
qed

theorem endpoints_materialized_witness:
  "nodes (addEdge_arg ''a.js:f'' ''parseInt'' ''calls(x)'' empty_state) =
     [\<lparr>id_node = ''a.js:f'', label = Some ''f'', type_node = ''function'', lines = None\<rparr>,
      \<lparr>id_node = ''parseInt'', label = Some ''parseInt'', type_node = ''variable'', lines = None\<rparr>] \<and>
   has_node ''a.js:f'' (addEdge_arg ''a.js:f'' ''parseInt'' ''calls(x)'' empty_state) \<and>
   has_node ''parseInt'' (addEdge_arg ''a.js:f'' ''parseInt'' ''calls(x)'' empty_state) \<and>
   endpoints_exist (snd (scanDirectory builtin_env True visit_arg ''src''
      [File ''a.js'' (Inr ''parseInt(x)'')] empty_state)) \<and>
   edges (snd (scanDirectory builtin_env True visit_arg ''src''
      [File ''a.js'' (Inr ''parseInt(x)'')] empty_state)) =
     [\<lparr>source = ''a.js:anonymous[1]'', target = ''parseInt'', type_edge = ''calls(x)''\<rparr>]"
proof -
  note t = endpoints_materialized[of "''a.js:f''" "''parseInt''" "''calls(x)''" empty_state
      builtin_env True "''src''" "[File ''a.js'' (Inr ''parseInt(x)'')]"]
  have a: "has_node ''a.js:f'' (addEdge_arg ''a.js:f'' ''parseInt'' ''calls(x)'' empty_state) \<and>
      has_node ''parseInt'' (addEdge_arg ''a.js:f'' ''parseInt'' ''calls(x)'' empty_state) \<and>
      endpoints_exist (snd (scanDirectory builtin_env True visit_arg ''src''
        [File ''a.js'' (Inr ''parseInt(x)'')] empty_state))"
    using t by blast
  have b: "nodes (addEdge_arg ''a.js:f'' ''parseInt'' ''calls(x)'' empty_state) =
     [\<lparr>id_node = ''a.js:f'', label = Some ''f'', type_node = ''function'', lines = None\<rparr>,
      \<lparr>id_node = ''parseInt'', label = Some ''parseInt'', type_node = ''variable'', lines = None\<rparr>]"
    by (simp add: empty_state_def model_defs)
  have c: "edges (snd (scanDirectory builtin_env True visit_arg ''src''
      [File ''a.js'' (Inr ''parseInt(x)'')] empty_state)) =
     [\<lparr>source = ''a.js:anonymous[1]'', target = ''parseInt'', type_edge = ''calls(x)''\<rparr>]"
    by (simp add: builtin_env_def empty_state_def model_defs)
  show ?thesis using a b c by blast
qed

section \<open>A file that fails to parse\<close>

lemma same_data_console:
  "same_data s1 s2 \<Longrightarrow> same_data (s1\<lparr>console := c1\<rparr>) (s2\<lparr>console := c2\<rparr>)"
  by (simp add: same_data_def)

lemma same_data_log_if:
  "same_data s1 s2 \<Longrightarrow> same_data (log_if v a s1) (log_if v b s2)"
  by (simp add: same_data_def log_if_def console_log_def)

lemma walk_simple_related:
  assumes vis: "\<And>n s1 s2. same_data s1 s2 \<Longrightarrow>
      fst (visit1 n s1) = fst (visit1 n s2) \<and> same_data (snd (visit1 n s1)) (snd (visit1 n s2))"
  shows "same_data s1 s2 \<Longrightarrow>
      fst (walk_simple visit1 ns s1) = fst (walk_simple visit1 ns s2) \<and>
      same_data (snd (walk_simple visit1 ns s1)) (snd (walk_simple visit1 ns s2))"
proof (induction ns arbitrary: s1 s2)
  case Nil
  then show ?case by simp
next
  case (Cons n ns)
  obtain r1 t1 where v1: "visit1 n s1 = (r1, t1)" by (cases "visit1 n s1") auto
  obtain r2 t2 where v2: "visit1 n s2 = (r2, t2)" by (cases "visit1 n s2") auto
  from vis[OF Cons.prems, of n] v1 v2 have r: "r1 = r2" and t: "same_data t1 t2" by simp_all
  show ?case
  proof (cases r1)
    case None
    then show ?thesis using v1 v2 r Cons.IH[OF t] by simp
  next
    case (Some err)
    then show ?thesis using v1 v2 r t by simp
  qed
qed

lemma parseJavaScript_related:
  assumes ic: "ignores_console visitors" and sd: "same_data s1 s2"
  shows "fst (parseJavaScript E visitors filePath content s1) =
           fst (parseJavaScript E visitors filePath content s2) \<and>
         same_data (snd (parseJavaScript E visitors filePath content s1))
           (snd (parseJavaScript E visitors filePath content s2))"
proof (cases "acorn_parse E content")
  case (Inl message)
  then show ?thesis using sd by (simp add: parseJavaScript_def console_warn_def same_data_def)
next
  case (Inr ast)
  have "fst (walk_simple (visitors (basename filePath)) ast s1) =
          fst (walk_simple (visitors (basename filePath)) ast s2) \<and>
        same_data (snd (walk_simple (visitors (basename filePath)) ast s1))
          (snd (walk_simple (visitors (basename filePath)) ast s2))"
  proof (rule walk_simple_related)
    show "\<And>n s1 s2. same_data s1 s2 \<Longrightarrow>
        fst (visitors (basename filePath) n s1) = fst (visitors (basename filePath) n s2) \<and>
        same_data (snd (visitors (basename filePath) n s1)) (snd (visitors (basename filePath) n s2))"
      using ic by (simp add: ignores_console_def)
    show "same_data s1 s2" by (rule sd)
  qed
  then show ?thesis using Inr by (simp add: parseJavaScript_def)
qed

lemma parseFile_related:
  assumes ic: "ignores_console visitors" and sd: "same_data s1 s2"
  shows "fst (parseFile E verbose visitors filePath readFileSync s1) =
           fst (parseFile E verbose visitors filePath readFileSync s2) \<and>
         same_data (snd (parseFile E verbose visitors filePath readFileSync s1))
           (snd (parseFile E verbose visitors filePath readFileSync s2))"
proof (cases readFileSync)
  case (Inl message)
  then show ?thesis using sd by (simp add: parseFile_def)
next
  case (Inr content)
  note pj = parseJavaScript_related[OF ic]
  note lg = same_data_log_if
  show ?thesis using Inr
    by (auto simp: parseFile_def Let_def intro!: pj lg sd split: option.splits)
qed


lemma scan_related:
  "ignores_console visitors \<Longrightarrow>
     (\<forall>s2. same_data s1 s2 \<longrightarrow>
        fst (scan E verbose visitors dir listing s1) = fst (scan E verbose visitors dir listing s2) \<and>
        same_data (snd (scan E verbose visitors dir listing s1))
          (snd (scan E verbose visitors dir listing s2)))"
  "ignores_console visitors \<Longrightarrow>
     (\<forall>s2. same_data s1 s2 \<longrightarrow>
        fst (scan_entry E verbose visitors dir e s1) = fst (scan_entry E verbose visitors dir e s2) \<and>
        same_data (snd (scan_entry E verbose visitors dir e s1))
          (snd (scan_entry E verbose visitors dir e s2)))"
proof (induction E verbose visitors dir listing s1 and E verbose visitors dir e s1
    rule: scan_scan_entry.induct)
  case (1 E verbose visitors dir st)
  then show ?case by simp
next
  case (2 E verbose visitors dir f files st)
  show ?case
  proof (intro allI impI)
    fix s2 assume sd: "same_data st s2"
    obtain r1 t1 where e1: "scan_entry E verbose visitors dir f st = (r1, t1)"
      by (cases "scan_entry E verbose visitors dir f st") auto
    obtain r2 t2 where e2: "scan_entry E verbose visitors dir f s2 = (r2, t2)"
      by (cases "scan_entry E verbose visitors dir f s2") auto
    from "2.IH"(1)[OF "2.prems"] sd e1 e2 have r: "r1 = r2" and t: "same_data t1 t2" by auto
    show "fst (scan E verbose visitors dir (f # files) st) =
            fst (scan E verbose visitors dir (f # files) s2) \<and>
          same_data (snd (scan E verbose visitors dir (f # files) st))
            (snd (scan E verbose visitors dir (f # files) s2))"
    proof (cases r1)
      case None
      from "2.IH"(2)[OF e1[symmetric] None "2.prems"] t
      show ?thesis using e1 e2 r None by simp
    next
      case (Some err)
      then show ?thesis using e1 e2 r t by simp
    qed
  qed
next
  case (3 E verbose visitors dir fl message st)
  then show ?case by simp
next
  case (4 E verbose visitors dir fl st)
  then show ?case by simp
next
  case (5 E verbose visitors dir fl listing st)
  then show ?case by simp
next
  case (6 E verbose visitors dir fl readFileSync st)
  show ?case
  proof (intro allI impI)
    fix s2 assume sd: "same_data st s2"
    let ?p = "path_join dir fl"
    let ?a = "log_if verbose (''Processing file: '' @ ?p) st"
    let ?b = "log_if verbose (''Processing file: '' @ ?p) s2"
    have ab: "same_data ?a ?b" using sd by (rule same_data_log_if)
    obtain r1 t1 where p1: "parseFile E verbose visitors ?p readFileSync ?a = (r1, t1)"
      by (cases "parseFile E verbose visitors ?p readFileSync ?a") auto
    obtain r2 t2 where p2: "parseFile E verbose visitors ?p readFileSync ?b = (r2, t2)"
      by (cases "parseFile E verbose visitors ?p readFileSync ?b") auto
    from parseFile_related[OF "6.prems" ab, of E verbose ?p readFileSync] p1 p2
    have r: "r1 = r2" and t: "same_data t1 t2" by simp_all
    show "fst (scan_entry E verbose visitors dir (File fl readFileSync) st) =
            fst (scan_entry E verbose visitors dir (File fl readFileSync) s2) \<and>
          same_data (snd (scan_entry E verbose visitors dir (File fl readFileSync) st))
            (snd (scan_entry E verbose visitors dir (File fl readFileSync) s2))"
      using sd p1 p2 r t
      by (cases r1) (auto simp: Let_def console_warn_def same_data_console)
  qed
qed

lemma same_data_addNode:
  "same_data s1 s2 \<Longrightarrow> same_data (addNode i l t ls s1) (addNode i l t ls s2)"
  by (simp add: same_data_def addNode_def)

lemma same_data_addEdge:
  "same_data s1 s2 \<Longrightarrow> same_data (addEdge s t ty s1) (addEdge s t ty s2)"
  by (simp add: same_data_def addEdge_def)

lemma same_data_fold:
  assumes "\<And>x s1 s2. same_data s1 s2 \<Longrightarrow> same_data (g x s1) (g x s2)"
  shows "same_data s1 s2 \<Longrightarrow> same_data (fold g xs s1) (fold g xs s2)"
  by (induction xs arbitrary: s1 s2) (simp_all add: assms)

lemma ignores_console_visit: "ignores_console visit"
  unfolding ignores_console_def
proof (intro allI impI)
  fix f n and s1 s2 :: state
  assume sd: "same_data s1 s2"
  have imp: "\<And>lib sps. same_data (fold (import_specifier f lib) sps (addNode lib (Some lib) ''library'' None s1))
        (fold (import_specifier f lib) sps (addNode lib (Some lib) ''library'' None s2))"
    by (rule same_data_fold)
       (simp_all add: import_specifier_def Let_def same_data_addNode same_data_addEdge sd)
  have exp: "\<And>ps. same_data (fold (export_property f) ps s1) (fold (export_property f) ps s2)"
    by (rule same_data_fold) (simp_all add: export_property_def same_data_addNode sd)
  show "fst (visit f n s1) = fst (visit f n s2) \<and>
        same_data (snd (visit f n s1)) (snd (visit f n s2))"
    by (cases n)
       (simp_all add: Let_def sd same_data_addNode same_data_addEdge imp exp
          split: option.splits del: show_nat.simps)
qed


lemma same_data_addNode_arg:
  "same_data s1 s2 \<Longrightarrow> same_data (addNode_arg i l t ls s1) (addNode_arg i l t ls s2)"
  by (simp add: same_data_def addNode_arg_def Let_def)

lemma same_data_ensureNodeExists:
  "same_data s1 s2 \<Longrightarrow> same_data (ensureNodeExists i l t s1) (ensureNodeExists i l t s2)"
  by (simp add: same_data_def ensureNodeExists_def addNode_arg_def Let_def)

lemma same_data_addEdge_arg:
  "same_data s1 s2 \<Longrightarrow> same_data (addEdge_arg s t ty s1) (addEdge_arg s t ty s2)"
proof -
  assume sd: "same_data s1 s2"
  let ?l1 = "or_else (at_index (split_str s '':'') 1) (Some s)"
  let ?l2 = "or_else (at_index (split_str t '':'') 1) (Some t)"
  have "same_data (ensureNodeExists t ?l2 ''unknown'' (ensureNodeExists s ?l1 ''unknown'' s1))
          (ensureNodeExists t ?l2 ''unknown'' (ensureNodeExists s ?l1 ''unknown'' s2))"
    by (intro same_data_ensureNodeExists sd)
  then show ?thesis by (simp add: addEdge_arg_def Let_def same_data_def)
qed

lemma ignores_console_visit_arg: "ignores_console visit_arg"
  unfolding ignores_console_def
proof (intro allI impI)
  fix f n and s1 s2 :: state
  assume sd: "same_data s1 s2"
  have imp: "\<And>lib sps. same_data
        (fold (import_specifier_arg f lib) sps (addNode_arg lib (Some lib) ''library'' None s1))
        (fold (import_specifier_arg f lib) sps (addNode_arg lib (Some lib) ''library'' None s2))"
    by (rule same_data_fold)
       (simp_all add: import_specifier_arg_def Let_def same_data_addNode_arg
          same_data_addEdge_arg sd)
  have exp: "\<And>ps. same_data (fold (export_property_arg f) ps s1) (fold (export_property_arg f) ps s2)"
    by (rule same_data_fold) (simp_all add: export_property_arg_def same_data_addNode_arg sd)
  show "fst (visit_arg f n s1) = fst (visit_arg f n s2) \<and>
        same_data (snd (visit_arg f n s1)) (snd (visit_arg f n s2))"
    by (cases n)
       (simp_all add: Let_def sd same_data_addNode_arg same_data_addEdge_arg imp exp
          split: option.splits sum.splits del: show_nat.simps)
qed

lemma same_data_registry: "same_data s1 s2 \<Longrightarrow> methodRegistry s1 = methodRegistry s2"
  by (cases s1, cases s2) (simp add: same_data_def)

lemma same_data_addNode_reg:
  "same_data s1 s2 \<Longrightarrow> same_data (addNode_reg fl name t ls s1) (addNode_reg fl name t ls s2)"
  by (cases s1, cases s2) (simp add: same_data_def addNode_reg_def Let_def)

lemma same_data_addEdge_reg:
  "same_data s1 s2 \<Longrightarrow> same_data (addEdge_reg a b c d ty s1) (addEdge_reg a b c d ty s2)"
  by (cases s1, cases s2) (simp add: same_data_def addEdge_reg_def Let_def)

lemma ignores_console_visit_reg: "ignores_console visit_reg"
  unfolding ignores_console_def
proof (intro allI impI)
  fix f n and s1 s2 :: reg_state
  assume sd: "same_data s1 s2"
  have trk: "\<And>p c es. same_data (fold (track_call f p c) es s1) (fold (track_call f p c) es s2)"
    by (rule same_data_fold) (simp_all add: track_call_def same_data_addEdge_reg sd)
  have exp: "\<And>ps. same_data (fold (export_property_reg f) ps s1) (fold (export_property_reg f) ps s2)"
    by (rule same_data_fold) (simp_all add: export_property_reg_def same_data_addNode_reg sd)
  show "fst (visit_reg f n s1) = fst (visit_reg f n s2) \<and>
        same_data (snd (visit_reg f n s1)) (snd (visit_reg f n s2))"
    by (cases n)
       (simp_all add: Let_def sd same_data_addNode_reg same_data_registry[OF sd] trk exp
          split: option.splits)
qed


lemma parse_failure_entry:
  assumes ok: "toLowerCase (extname fname) \<in> set allowedExtensions"
    and tx: "text_to_parse E (path_join dir fname) content = Some text"
    and bad: "acorn_parse E text = Inl message"
  shows "\<exists>logs. (\<forall>l \<in> set logs. \<exists>s. l = Log s) \<and>
           scan_entry E verbose visitors dir (File fname (Inr content)) st =
             (None, st\<lparr>console := console st @ logs @
                [Warn (''Warning: Could not parse '' @ path_join dir fname @ ''. Error: '' @ message)]\<rparr>)"
proof -
  let ?p = "path_join dir fname"
  let ?w = "Warn (''Warning: Could not parse '' @ ?p @ ''. Error: '' @ message)"
  let ?st1 = "log_if verbose (''Parsing file: '' @ ?p @ '', extension: '' @ toLowerCase (extname ?p))
                (log_if verbose (''Processing file: '' @ ?p) st)"
  have pj: "\<And>s. parseJavaScript E visitors ?p text s = (None, s\<lparr>console := console s @ [?w]\<rparr>)"
    using bad by (simp add: parseJavaScript_def console_warn_def)
  have l1: "\<exists>logs. (\<forall>l \<in> set logs. \<exists>s. l = Log s) \<and> ?st1 = st\<lparr>console := console st @ logs\<rparr>"
  proof (cases verbose)
    case True
    then show ?thesis
      by (intro exI[of _ "[Log (''Processing file: '' @ ?p),
            Log (''Parsing file: '' @ ?p @ '', extension: '' @ toLowerCase (extname ?p))]"])
         (simp add: log_if_def console_log_def)
  next
    case False
    then show ?thesis by (intro exI[of _ "[]"]) (simp add: log_if_def)
  qed
  have l2: "\<exists>logs. (\<forall>l \<in> set logs. \<exists>s. l = Log s) \<and>
      parseFile E verbose visitors ?p (Inr content) (log_if verbose (''Processing file: '' @ ?p) st) =
        (None, st\<lparr>console := console st @ logs @ [?w]\<rparr>)"
  proof (cases "toLowerCase (extname ?p) = ''.vue''")
    case False
    then have t: "text = content" using tx by (simp add: text_to_parse_def)
    from l1 obtain logs where lg: "\<forall>l \<in> set logs. \<exists>s. l = Log s"
        "?st1 = st\<lparr>console := console st @ logs\<rparr>" by blast
    have "parseFile E verbose visitors ?p (Inr content) (log_if verbose (''Processing file: '' @ ?p) st) =
            parseJavaScript E visitors ?p text ?st1"
      using False t by (simp add: parseFile_def Let_def)
    then show ?thesis using lg pj by (intro exI[of _ logs]) simp
  next
    case True
    from l1 obtain logs where lg: "\<forall>l \<in> set logs. \<exists>s. l = Log s"
        "?st1 = st\<lparr>console := console st @ logs\<rparr>" by blast
    obtain extra where m: "(\<forall>l \<in> set extra. \<exists>s. l = Log s)"
      "parseFile E verbose visitors ?p (Inr content) (log_if verbose (''Processing file: '' @ ?p) st) =
         parseJavaScript E visitors ?p text (?st1\<lparr>console := console ?st1 @ extra\<rparr>)"
    proof (cases "parseComponent_script E content")
      case (Some script)
      then have t: "text = script" using tx True by (simp add: text_to_parse_def)
      show ?thesis
      proof (cases verbose)
        case True
        show ?thesis
          by (rule that[of "[Log ''Vue file detected, parsing script content'']"])
             (simp_all add: parseFile_def Let_def \<open>toLowerCase (extname ?p) = ''.vue''\<close> Some t
                log_if_def console_log_def True)
      next
        case False
        show ?thesis
          by (rule that[of "[]"])
             (simp_all add: parseFile_def Let_def \<open>toLowerCase (extname ?p) = ''.vue''\<close> Some t
                log_if_def False)
      qed
    next
      case None
      then have inc: "str_includes content ''<script setup>''"
        and t: "text = hd (split_str (split_str content ''<script setup>'' ! 1) ''</script>'')"
        using tx True by (simp_all add: text_to_parse_def split: if_splits)
      show ?thesis
      proof (cases verbose)
        case True
        show ?thesis
          by (rule that[of "[Log ''Vue file detected with <script setup>, parsing content'']"])
             (simp_all add: parseFile_def Let_def \<open>toLowerCase (extname ?p) = ''.vue''\<close> None t inc
                log_if_def console_log_def True)
      next
        case False
        show ?thesis
          by (rule that[of "[]"])
             (simp_all add: parseFile_def Let_def \<open>toLowerCase (extname ?p) = ''.vue''\<close> None t inc
                log_if_def False)
      qed
    qed
    show ?thesis using lg m pj by (intro exI[of _ "logs @ extra"]) auto
  qed
  then obtain logs where lg: "\<forall>l \<in> set logs. \<exists>s. l = Log s"
    and pf: "parseFile E verbose visitors ?p (Inr content) (log_if verbose (''Processing file: '' @ ?p) st) =
        (None, st\<lparr>console := console st @ logs @ [?w]\<rparr>)" by blast
  have "scan_entry E verbose visitors dir (File fname (Inr content)) st =
          (None, st\<lparr>console := console st @ logs @ [?w]\<rparr>)"
    using ok pf by (simp add: Let_def)
  then show ?thesis using lg by blast
qed


text \<open>
  C9. Let a file with an accepted extension be such that the text handed to the parser
  fails to parse.  Then the scan of that entry throws nothing and changes the state only
  by console lines, the last of which is the warning that names the file: the file adds
  no node and no edge.  The scan goes on with the remaining entries from that state; and
  since the visitors of all three scripts ignore the console, the scan of the whole
  listing ends with the same outcome, nodes and edges as the scan of the remaining
  entries alone.
\<close>

theorem parse_failure_skips_file:
  assumes ok: "toLowerCase (extname fname) \<in> set allowedExtensions"
    and tx: "text_to_parse E (path_join dir fname) content = Some text"
    and bad: "acorn_parse E text = Inl message"
  shows "(\<exists>logs. (\<forall>l \<in> set logs. \<exists>s. l = Log s) \<and>
            scan_entry E verbose visitors dir (File fname (Inr content)) st =
              (None, st\<lparr>console := console st @ logs @
                 [Warn (''Warning: Could not parse '' @ path_join dir fname @ ''. Error: '' @
                        message)]\<rparr>)) \<and>
         scan E verbose visitors dir (File fname (Inr content) # rest) st =
           scan E verbose visitors dir rest
             (snd (scan_entry E verbose visitors dir (File fname (Inr content)) st)) \<and>
         (ignores_console visitors \<longrightarrow>
            fst (scan E verbose visitors dir (File fname (Inr content) # rest) st) =
              fst (scan E verbose visitors dir rest st) \<and>
            same_data (snd (scan E verbose visitors dir (File fname (Inr content) # rest) st))
              (snd (scan E verbose visitors dir rest st))) \<and>
         ignores_console visit \<and> ignores_console visit_reg \<and> ignores_console visit_arg"
proof -
  let ?f = "File fname (Inr content)"
  from parse_failure_entry[OF ok tx bad, of verbose visitors st]
  obtain logs where lg: "\<forall>l \<in> set logs. \<exists>s. l = Log s"
    and en: "scan_entry E verbose visitors dir ?f st =
      (None, st\<lparr>console := console st @ logs @
         [Warn (''Warning: Could not parse '' @ path_join dir fname @ ''. Error: '' @ message)]\<rparr>)"
    by blast
  have a: "\<exists>logs. (\<forall>l \<in> set logs. \<exists>s. l = Log s) \<and>
            scan_entry E verbose visitors dir ?f st =
              (None, st\<lparr>console := console st @ logs @
                 [Warn (''Warning: Could not parse '' @ path_join dir fname @ ''. Error: '' @
                        message)]\<rparr>)"
    using lg en by blast
  have b: "scan E verbose visitors dir (?f # rest) st =
      scan E verbose visitors dir rest (snd (scan_entry E verbose visitors dir ?f st))"
    by (simp add: en del: scan_entry.simps)
  have c: "fst (scan E verbose visitors dir (?f # rest) st) =
              fst (scan E verbose visitors dir rest st) \<and>
            same_data (snd (scan E verbose visitors dir (?f # rest) st))
              (snd (scan E verbose visitors dir rest st))" if ic: "ignores_console visitors"
  proof -
    have sd: "same_data (snd (scan_entry E verbose visitors dir ?f st)) st"
      by (simp add: en same_data_def del: scan_entry.simps)
    from scan_related(1)[OF ic, of "snd (scan_entry E verbose visitors dir ?f st)" E verbose dir rest] sd
    show ?thesis by (simp only: b)
  qed
  show ?thesis
    using a b c ignores_console_visit ignores_console_visit_reg ignores_console_visit_arg
    by blast
qed

theorem parse_failure_skips_file_witness:
  "scan malformed_env True visit ''src''
     [File ''bad.js'' (Inr ''function {''), File ''ok.js'' (Inr ''function ok() {}'')] empty_state =
     (None,
      \<lparr>nodes = [\<lparr>id_node = ''ok.js:ok'', label = Some ''ok'', type_node = ''method'',
                  lines = Some ''[1-1]''\<rparr>],
       edges = [],
       console =
         [Log ''Processing file: src/bad.js'', Log ''Parsing file: src/bad.js, extension: .js'',
          Warn ''Warning: Could not parse src/bad.js. Error: Unexpected token (1:9)'',
          Log ''Processing file: src/ok.js'', Log ''Parsing file: src/ok.js, extension: .js'']\<rparr>) \<and>
   same_data
     (snd (scan malformed_env True visit ''src''
        [File ''bad.js'' (Inr ''function {''), File ''ok.js'' (Inr ''function ok() {}'')] empty_state))
     (snd (scan malformed_env True visit ''src''
        [File ''ok.js'' (Inr ''function ok() {}'')] empty_state))"
proof -
  have h1: "toLowerCase (extname ''bad.js'') \<in> set allowedExtensions"
    by (simp add: toLowerCase_def extname_def basename_def allowedExtensions_def)
  have h2: "text_to_parse malformed_env (path_join ''src'' ''bad.js'') ''function {'' =
              Some ''function {''"
    by (simp add: text_to_parse_def toLowerCase_def extname_def basename_def path_join_def)
  have h3: "acorn_parse malformed_env ''function {'' = Inl ''Unexpected token (1:9)''"
    by (simp add: malformed_env_def)
  note t = parse_failure_skips_file[OF h1 h2 h3, of True visit empty_state
      "[File ''ok.js'' (Inr ''function ok() {}'')]"]
  have a: "same_data
     (snd (scan malformed_env True visit ''src''
        [File ''bad.js'' (Inr ''function {''), File ''ok.js'' (Inr ''function ok() {}'')] empty_state))
     (snd (scan malformed_env True visit ''src''
        [File ''ok.js'' (Inr ''function ok() {}'')] empty_state))"
    using t by blast
  have b: "scan malformed_env True visit ''src''
     [File ''bad.js'' (Inr ''function {''), File ''ok.js'' (Inr ''function ok() {}'')] empty_state =
     (None,
      \<lparr>nodes = [\<lparr>id_node = ''ok.js:ok'', label = Some ''ok'', type_node = ''method'',
                  lines = Some ''[1-1]''\<rparr>],
       edges = [],
       console =
         [Log ''Processing file: src/bad.js'', Log ''Parsing file: src/bad.js, extension: .js'',
          Warn ''Warning: Could not parse src/bad.js. Error: Unexpected token (1:9)'',
          Log ''Processing file: src/ok.js'', Log ''Parsing file: src/ok.js, extension: .js'']\<rparr>)"
    by (simp add: malformed_env_def empty_state_def model_defs)
  show ?thesis using a b by (rule conjI[rotated])
qed

end
